theory Spec2Isabelle
  imports Main
begin

section \<open>The graph IR\<close>

text \<open>
  A node pointer (\<open>AnfNodePtr\<close>) is an index into the list of nodes that have been
  built so far; two pointers are the same node exactly when the indices are equal.
  Building a node appends it, so a node built by a pass has an index that was not
  in use before.  A sub-graph pointer (\<open>FuncGraphPtr\<close>) is a number, and the null
  sub-graph pointer is \<open>None\<close>.
\<close>

type_synonym node_id = nat
type_synonym fg_id = nat

datatype prim =
    kPrimTensorAdd | kPrimScalarAdd | kPrimMul | kPrimScalarMul | kPrimIdentity
  | kPrimMomentum | kPrimZerosLike | kPrimMakeTuple | kPrimPow | kPrimAddN
  | kPrimAllReduce | kPrimOther nat

text \<open>
  The held value of a value node: an integer immediate, a tensor constant (its
  dimensions and its elements) or a reference to a primitive.
\<close>

datatype literal = Int32Imm int | TensorVal "nat list" "int list" | PrimVal prim

datatype anf_node =
    CNode "node_id list" "fg_id option"
  | ValueNode literal
  | Parameter "fg_id option"

text \<open>
  The graph state a pass works on: the nodes, and the manager's \<open>node_users\<close> map
  from a node to the (consumer, operand position) pairs that reference it.
\<close>

record graph =
  nodes :: "anf_node list"
  node_users :: "(node_id \<times> (node_id \<times> nat) list) list"

datatype fault = NullFuncGraph | NotCaptured

definition node_at :: "graph \<Rightarrow> node_id \<Rightarrow> anf_node option" where
  "node_at s n = (if n < length (nodes s) then Some (nodes s ! n) else None)"

text \<open>\<open>node->cast<CNodePtr>()->inputs()\<close>, \<open>None\<close> when the cast gives null.\<close>

definition cnode_inputs :: "graph \<Rightarrow> node_id \<Rightarrow> node_id list option" where
  "cnode_inputs s n = (case node_at s n of Some (CNode inputs fg) \<Rightarrow> Some inputs | _ \<Rightarrow> None)"

text \<open>\<open>node->cast<CNodePtr>()->input(0)\<close>, the operator of a call.\<close>

definition cnode_input0 :: "graph \<Rightarrow> node_id \<Rightarrow> node_id option" where
  "cnode_input0 s n = (case cnode_inputs s n of Some (f # args) \<Rightarrow> Some f | _ \<Rightarrow> None)"

text \<open>\<open>node->func_graph()\<close>: a value node belongs to no sub-graph.\<close>

definition func_graph :: "graph \<Rightarrow> node_id \<Rightarrow> fg_id option" where
  "func_graph s n =
     (case node_at s n of
        Some (CNode inputs fg) \<Rightarrow> fg
      | Some (Parameter fg) \<Rightarrow> fg
      | _ \<Rightarrow> None)"

definition IsCNode :: "graph \<Rightarrow> node_id \<Rightarrow> bool" where
  "IsCNode s n = (case node_at s n of Some (CNode inputs fg) \<Rightarrow> True | _ \<Rightarrow> False)"

definition IsVNode :: "graph \<Rightarrow> node_id \<Rightarrow> bool" where
  "IsVNode s n = (case node_at s n of Some (ValueNode v) \<Rightarrow> True | _ \<Rightarrow> False)"

text \<open>
  Modelled from the spec: \<open>IsNode\<close>, the predicate handed to \<open>AnfVisitor::Match\<close> for
  an operand that may be any node (it is declared outside the sources).
\<close>

definition IsNode :: "graph \<Rightarrow> node_id \<Rightarrow> bool" where
  "IsNode s n = True"

text \<open>
  Modelled from the spec: \<open>IsPrimitiveCNode\<close> (declared outside the sources): the
  node is a call whose first input, the operator, is a value node holding the
  named primitive.
\<close>

definition IsPrimitiveCNode :: "graph \<Rightarrow> node_id \<Rightarrow> prim \<Rightarrow> bool" where
  "IsPrimitiveCNode s n p =
     (case cnode_inputs s n of
        Some (f # args) \<Rightarrow> node_at s f = Some (ValueNode (PrimVal p))
      | _ \<Rightarrow> False)"

text \<open>
  Modelled from the spec: \<open>new_call(operands, owning_sub_graph)\<close>.  \<open>FuncGraph_NewCNode\<close>
  builds the call in a sub-graph that is there; \<open>NewCNode\<close> takes the sub-graph
  pointer and faults on the null pointer, since there is no sub-graph to build into.
\<close>

definition FuncGraph_NewCNode :: "graph \<Rightarrow> node_id list \<Rightarrow> fg_id \<Rightarrow> node_id \<times> graph" where
  "FuncGraph_NewCNode s inputs fg =
     (length (nodes s), s\<lparr>nodes := nodes s @ [CNode inputs (Some fg)]\<rparr>)"

definition NewCNode :: "graph \<Rightarrow> node_id list \<Rightarrow> fg_id option \<Rightarrow> fault + node_id \<times> graph" where
  "NewCNode s inputs fg =
     (case fg of None \<Rightarrow> Inl NullFuncGraph | Some g \<Rightarrow> Inr (FuncGraph_NewCNode s inputs g))"

definition NewValueNode :: "graph \<Rightarrow> literal \<Rightarrow> node_id \<times> graph" where
  "NewValueNode s v = (length (nodes s), s\<lparr>nodes := nodes s @ [ValueNode v]\<rparr>)"

subsection \<open>The manager's edge replacement\<close>

definition users_of :: "graph \<Rightarrow> node_id \<Rightarrow> (node_id \<times> nat) list option" where
  "users_of s n = map_of (node_users s) n"

definition drop_user ::
  "node_id \<Rightarrow> node_id \<times> nat \<Rightarrow> (node_id \<times> (node_id \<times> nat) list) list
     \<Rightarrow> (node_id \<times> (node_id \<times> nat) list) list" where
  "drop_user n e m = map (\<lambda>(k, us). if k = n then (k, removeAll e us) else (k, us)) m"

definition add_user ::
  "node_id \<Rightarrow> node_id \<times> nat \<Rightarrow> (node_id \<times> (node_id \<times> nat) list) list
     \<Rightarrow> (node_id \<times> (node_id \<times> nat) list) list" where
  "add_user n e m =
     (case map_of m n of
        None \<Rightarrow> m @ [(n, [e])]
      | Some us \<Rightarrow>
          map (\<lambda>(k, us). if k = n then (k, if e \<in> set us then us else us @ [e]) else (k, us)) m)"

text \<open>
  Modelled from the spec: \<open>replace_edge(consumer, operand-position, new-node)\<close>, the
  manager's \<open>SetEdge\<close>.  The consumer's operand at the position becomes the new node,
  and the user map follows: the pair leaves the users of the old operand and joins
  the users of the new one.  A consumer that is no call, or a position it does not
  have, leaves the graph as it is.
\<close>

definition SetEdge :: "graph \<Rightarrow> node_id \<Rightarrow> nat \<Rightarrow> node_id \<Rightarrow> graph" where
  "SetEdge s node index v =
     (case node_at s node of
        Some (CNode inputs fg) \<Rightarrow>
          if index < length inputs
          then s\<lparr>nodes := (nodes s)[node := CNode (inputs[index := v]) fg],
                 node_users := add_user v (node, index)
                                 (drop_user (inputs ! index) (node, index) (node_users s))\<rparr>
          else s
      | _ \<Rightarrow> s)"

section \<open>AdjustAllReduceMulAdd\<close>

text \<open>
  The fields of the pass object (\<open>m_x\<close> for \<open>x_\<close>, and so on).  \<open>Reset\<close> clears
  the ones it names; \<open>mul_\<close>, \<open>mul_cnode_\<close> and \<open>all_reduce_\<close> keep what an earlier
  call left in them.
\<close>

record visitor =
  m_level :: nat
  m_is_reduce_match :: bool
  m_x :: "node_id option"
  m_y :: "node_id option"
  m_z :: "node_id option"
  m_tmp :: "node_id option"
  m_mul :: "node_id option"
  m_mul_cnode :: "node_id option"
  m_all_reduce :: "node_id option"
  m_all_reduce_fg :: "fg_id option"

definition Reset :: "visitor \<Rightarrow> visitor" where
  "Reset v = v\<lparr>m_level := 0, m_is_reduce_match := False, m_x := None, m_y := None,
               m_z := None, m_tmp := None, m_all_reduce_fg := None\<rparr>"

text \<open>
  Modelled from the spec: \<open>AnfVisitor::Match(prim, predicates)\<close> (the visitor base
  class is outside the sources).  The node has to be a call of the primitive; when
  predicates are given, there is one per operand and each holds; then every operand
  is visited in order with the visitor's \<open>Visit\<close>.
\<close>

definition Match ::
  "(graph \<Rightarrow> visitor \<Rightarrow> node_id \<Rightarrow> visitor) \<Rightarrow> prim \<Rightarrow> (graph \<Rightarrow> node_id \<Rightarrow> bool) list
     \<Rightarrow> graph \<Rightarrow> visitor \<Rightarrow> node_id \<Rightarrow> visitor" where
  "Match visit p funcs s v node =
     (if IsPrimitiveCNode s node p
      then (case cnode_inputs s node of
              Some (f # args) \<Rightarrow>
                if funcs = [] \<or>
                   (length funcs = length args \<and> list_all (\<lambda>(q, a). q s a) (zip funcs args))
                then fold (\<lambda>a w. visit s w a) args v
                else v
            | _ \<Rightarrow> v)
      else v)"

text \<open>
  The second block of \<open>Visit\<close> (\<open>if (level_ == 1)\<close>): an AllReduce call with an
  operand records the operator, the operand and the owning sub-graph; any other
  node that is no AllReduce call is remembered in \<open>tmp_\<close>.
\<close>

definition Visit_level1 :: "graph \<Rightarrow> visitor \<Rightarrow> node_id \<Rightarrow> visitor" where
  "Visit_level1 s v node =
     (if m_level v = 1
      then (if IsPrimitiveCNode s node kPrimAllReduce
            then (case cnode_inputs s node of
                    Some (f # a # rest) \<Rightarrow>
                      v\<lparr>m_all_reduce := Some f, m_x := Some a, m_is_reduce_match := True,
                        m_all_reduce_fg := func_graph s node\<rparr>
                  | _ \<Rightarrow> v)
            else v\<lparr>m_tmp := Some node\<rparr>)
      else v)"

text \<open>
  \<open>Visit\<close>.  At level 0 the element is matched against \<open>Mul\<close> with \<open>level_\<close> set to
  1; the visits that \<open>Match\<close> makes of the operands therefore skip the first block
  and run the second one, which is \<open>Visit_level1\<close>.  Back at level 0 the second
  block is skipped.
\<close>

definition Visit :: "graph \<Rightarrow> visitor \<Rightarrow> node_id \<Rightarrow> visitor" where
  "Visit s v node =
     (let v1 =
        (if m_level v = 0
         then (let va = v\<lparr>m_level := 1, m_is_reduce_match := False\<rparr>;
                   vb = Match Visit_level1 kPrimMul [] s va node;
                   vc = vb\<lparr>m_level := 0\<rparr>
               in if m_is_reduce_match vc
                  then vc\<lparr>m_mul := cnode_input0 s node,
                          m_mul_cnode := Some node, m_y := m_tmp vc\<rparr>
                  else vc\<lparr>m_z := Some node\<rparr>)
         else v)
      in Visit_level1 s v1 node)"

text \<open>The loop of \<open>ProcessDependEdge\<close> over (a copy of) the users of the multiply.\<close>

fun ProcessDependEdge_users ::
  "node_id \<Rightarrow> node_id \<Rightarrow> (node_id \<times> nat) list \<Rightarrow> graph \<Rightarrow> graph" where
  "ProcessDependEdge_users addn_maketuple new_node [] s = s"
| "ProcessDependEdge_users addn_maketuple new_node ((node, index) # users) s =
     ProcessDependEdge_users addn_maketuple new_node users
       (if node \<noteq> addn_maketuple
        then (if IsPrimitiveCNode s node kPrimMakeTuple
              then SetEdge s node index new_node
              else s)
        else s)"

definition ProcessDependEdge :: "visitor \<Rightarrow> graph \<Rightarrow> fg_id \<Rightarrow> node_id \<Rightarrow> node_id \<Rightarrow> graph" where
  "ProcessDependEdge v s fg addn_maketuple new_node =
     (case m_mul_cnode v of
        None \<Rightarrow> s
      | Some m \<Rightarrow>
          (case users_of s m of
             None \<Rightarrow> s
           | Some users \<Rightarrow> ProcessDependEdge_users addn_maketuple new_node users s))"

text \<open>
  \<open>operator()\<close>.  The result is the returned node (\<open>None\<close> for \<open>nullptr\<close>), the graph
  and the fields of the pass object as the call leaves them.  \<open>all_reduce_\<close> and
  \<open>mul_\<close> are set wherever \<open>x_\<close> and \<open>y_\<close> are, so their null branches are never taken.
\<close>

definition AdjustAllReduceMulAdd ::
  "visitor \<Rightarrow> graph \<Rightarrow> node_id \<Rightarrow> node_id option \<times> graph \<times> visitor" where
  "AdjustAllReduceMulAdd v0 s node =
     (let v = Reset v0 in
      if \<not> IsPrimitiveCNode s node kPrimAddN then (None, s, v)
      else (case cnode_inputs s node of
              Some [addn_op_node, addn_maketuple] \<Rightarrow>
                (let w = Match Visit kPrimMakeTuple [IsNode, IsNode] s v addn_maketuple in
                 case (m_x w, m_y w, m_z w, m_all_reduce_fg w) of
                   (Some x, Some y, Some z, Some fg) \<Rightarrow>
                     (case (m_all_reduce w, m_mul w, cnode_inputs s addn_maketuple) of
                        (Some all_reduce_op, Some mul_op, Some (make_tuple_op_node # elems)) \<Rightarrow>
                          (let (z', s1) =
                                 (case cnode_inputs s z of
                                    Some z_inputs \<Rightarrow>
                                      if Some fg \<noteq> func_graph s z
                                      then FuncGraph_NewCNode s z_inputs fg
                                      else (z, s)
                                  | None \<Rightarrow> (z, s));
                               w1 = w\<lparr>m_z := Some z'\<rparr>;
                               (tuple, s2) = FuncGraph_NewCNode s1 [make_tuple_op_node, z', x] fg;
                               (add, s3) = FuncGraph_NewCNode s2 [addn_op_node, tuple] fg;
                               (all_reduce, s4) = FuncGraph_NewCNode s3 [all_reduce_op, add] fg;
                               (mul, s5) = FuncGraph_NewCNode s4 [mul_op, all_reduce, y] fg;
                               s6 = ProcessDependEdge w1 s5 fg addn_maketuple all_reduce
                           in (Some mul, s6, w1))
                      | _ \<Rightarrow> (None, s, w))
                 | _ \<Rightarrow> (None, s, w))
            | _ \<Rightarrow> (None, s, v)))"

section \<open>The pattern matcher\<close>

text \<open>
  The pattern classes and the \<open>MATCH_REPLACE\<close> macros are declared outside the
  sources; this section models them from the spec.  A pattern is a tree of
  wildcards (\<open>PatternNode\<close>), constant matchers (\<open>PConstant\<close>), primitive-call
  matchers (\<open>PPrimitive\<close>) and the binary combinators \<open>+\<close> and \<open>*\<close>
  (\<open>PBinOperation\<close>).  Whether a binary combinator also tries its operands in the
  other order is fixed where the combinators are declared; it is carried by the
  pattern as a flag and is a parameter of the pass below.
\<close>

datatype pvar = PX | PY | PZ | PXS

text \<open>
  The constant matchers that \<open>ArithmeticSimplify\<close> declares (lines 24 to 30), with
  the arguments of their constructors: whether any literal will do, the literal
  looked for, and whether only scalars are accepted.
\<close>

datatype pconst = P_one | P_one_scalar | P_zero | P_zero_scalar | P_const | P_const_2 | P_any_const

fun any_value :: "pconst \<Rightarrow> bool" where
  "any_value P_const = True"
| "any_value P_const_2 = True"
| "any_value P_any_const = True"
| "any_value c = False"

fun check_value :: "pconst \<Rightarrow> int" where
  "check_value P_one = 1"
| "check_value P_one_scalar = 1"
| "check_value c = 0"

fun is_scalar :: "pconst \<Rightarrow> bool" where
  "is_scalar P_one_scalar = True"
| "is_scalar P_zero_scalar = True"
| "is_scalar c = False"

datatype pattern =
    PatternNode pvar
  | PConstant pconst
  | PPrimitive prim "pattern list"
  | PBinOperation prim pattern pattern bool

record bindings =
  captured :: "pvar \<Rightarrow> node_id option"
  captured_const :: "pconst \<Rightarrow> node_id option"

definition no_bindings :: bindings where
  "no_bindings = \<lparr>captured = (\<lambda>x. None), captured_const = (\<lambda>c. None)\<rparr>"

text \<open>
  Modelled from the spec: the constant matcher's test of a literal.  A tensor
  constant is the literal \<open>c\<close> when every element is \<open>c\<close>; the scalar-only variant
  wants a tensor of no dimensions, which holds one element; an integer immediate
  is the literal when it equals \<open>c\<close>.  A matcher built without a value matches
  every literal.
\<close>

definition IsTensorConstant :: "int \<Rightarrow> literal \<Rightarrow> bool" where
  "IsTensorConstant c v =
     (case v of TensorVal dims elems \<Rightarrow> list_all (\<lambda>e. e = c) elems | _ \<Rightarrow> False)"

definition IsTensorScalarConstant :: "int \<Rightarrow> literal \<Rightarrow> bool" where
  "IsTensorScalarConstant c v =
     (case v of TensorVal dims elems \<Rightarrow> dims = [] \<and> elems = [c] | _ \<Rightarrow> False)"

definition const_matches :: "pconst \<Rightarrow> literal \<Rightarrow> bool" where
  "const_matches c v =
     (any_value c \<or>
      (if is_scalar c then IsTensorScalarConstant (check_value c) v
       else IsTensorConstant (check_value c) v) \<or>
      v = Int32Imm (check_value c))"

text \<open>
  Modelled from the spec: \<open>TryCapture\<close>.  A wildcard binds the node; a constant
  matcher wants a value node whose literal passes its test; a primitive-call
  matcher wants a call of the primitive with as many operands as it has
  sub-patterns, each matching in order; a binary combinator is the primitive-call
  matcher of its operator over two operands, tried again with the operands
  swapped when it is commutative.  \<open>None\<close> is a failed match, whose bindings are
  discarded.
\<close>

fun TryCapture :: "graph \<Rightarrow> pattern \<Rightarrow> node_id \<Rightarrow> bindings \<Rightarrow> bindings option"
  and TryCapture_args :: "graph \<Rightarrow> pattern list \<Rightarrow> node_id list \<Rightarrow> bindings \<Rightarrow> bindings option" where
  "TryCapture s (PatternNode x) node b = Some (b\<lparr>captured := (captured b)(x \<mapsto> node)\<rparr>)"
| "TryCapture s (PConstant c) node b =
     (case node_at s node of
        Some (ValueNode v) \<Rightarrow>
          if const_matches c v
          then Some (b\<lparr>captured_const := (captured_const b)(c \<mapsto> node)\<rparr>)
          else None
      | _ \<Rightarrow> None)"
| "TryCapture s (PPrimitive p args) node b =
     (if IsPrimitiveCNode s node p
      then (case cnode_inputs s node of
              Some (f # inputs) \<Rightarrow>
                if length inputs = length args then TryCapture_args s args inputs b else None
            | _ \<Rightarrow> None)
      else None)"
| "TryCapture s (PBinOperation p x y commutative) node b =
     (if IsPrimitiveCNode s node p
      then (case cnode_inputs s node of
              Some [f, a1, a2] \<Rightarrow>
                (case (case TryCapture s x a1 b of
                         None \<Rightarrow> None
                       | Some b1 \<Rightarrow> TryCapture s y a2 b1) of
                   Some b2 \<Rightarrow> Some b2
                 | None \<Rightarrow>
                     if commutative
                     then (case TryCapture s x a2 b of
                             None \<Rightarrow> None
                           | Some b1 \<Rightarrow> TryCapture s y a1 b1)
                     else None)
            | _ \<Rightarrow> None)
      else None)"
| "TryCapture_args s [] [] b = Some b"
| "TryCapture_args s (p # ps) (n # ns) b =
     (case TryCapture s p n b of
        None \<Rightarrow> None
      | Some b1 \<Rightarrow> TryCapture_args s ps ns b1)"
| "TryCapture_args s ps ns b = None"

text \<open>
  Modelled from the spec: the \<open>MATCH_REPLACE\<close> macros.  The outcome of one rule is
  \<open>None\<close> when the rule does not fire and the next one is tried, otherwise what
  the pass returns: a fault, or the node pointer that the replacement gives (which
  may be null) with the graph as the replacement leaves it.  The replacement is
  produced only once the pattern has matched (and the condition, where there is
  one, holds).
\<close>

type_synonym replacement = "graph \<Rightarrow> node_id \<Rightarrow> bindings \<Rightarrow> fault + node_id option \<times> graph"
type_synonym rule = "graph \<Rightarrow> node_id \<Rightarrow> (fault + node_id option \<times> graph) option"

definition MATCH_REPLACE :: "pattern \<Rightarrow> replacement \<Rightarrow> rule" where
  "MATCH_REPLACE capture_node replace_with s node =
     (case TryCapture s capture_node node no_bindings of
        None \<Rightarrow> None
      | Some b \<Rightarrow> Some (replace_with s node b))"

definition MATCH_REPLACE_IF :: "pattern \<Rightarrow> replacement \<Rightarrow> (graph \<Rightarrow> bindings \<Rightarrow> bool) \<Rightarrow> rule" where
  "MATCH_REPLACE_IF capture_node replace_with condition s node =
     (case TryCapture s capture_node node no_bindings of
        None \<Rightarrow> None
      | Some b \<Rightarrow> if condition s b then Some (replace_with s node b) else None)"

definition MATCH_REPLACE_LAMBDA :: "pattern \<Rightarrow> replacement \<Rightarrow> rule" where
  "MATCH_REPLACE_LAMBDA capture_node lambda s node =
     (case TryCapture s capture_node node no_bindings of
        None \<Rightarrow> None
      | Some b \<Rightarrow> Some (lambda s node b))"

text \<open>A node that has just been built, handed on as a node pointer: it is not null.\<close>

definition returned :: "fault + node_id \<times> graph \<Rightarrow> fault + node_id option \<times> graph" where
  "returned res = (case res of Inl e \<Rightarrow> Inl e | Inr (n, s) \<Rightarrow> Inr (Some n, s))"

text \<open>
  Modelled from the spec: the replacement producers.  \<open>GetNode\<close> of a wildcard is
  the node it is bound to, the existing node and no copy; \<open>NewValue\<close> of a constant
  matcher stamps a new value node holding the matcher's literal; \<open>GetNode\<close> of a
  primitive-call pattern builds the operator's value node and then the call, in
  the candidate's sub-graph.
\<close>

definition GetNode :: "pvar \<Rightarrow> replacement" where
  "GetNode x s node b =
     (case captured b x of None \<Rightarrow> Inl NotCaptured | Some n \<Rightarrow> Inr (Some n, s))"

definition NewValue :: "pconst \<Rightarrow> replacement" where
  "NewValue c s node b = returned (Inr (NewValueNode s (Int32Imm (check_value c))))"

definition CheckFunc :: "pvar \<Rightarrow> (graph \<Rightarrow> node_id \<Rightarrow> bool) \<Rightarrow> graph \<Rightarrow> bindings \<Rightarrow> bool" where
  "CheckFunc x func s b = (case captured b x of None \<Rightarrow> False | Some n \<Rightarrow> func s n)"

text \<open>
  Modelled from the spec: \<open>any_const.WithValueOf(x)\<close>, the replacement of the
  multiply-by-one rule (the constant matcher is declared outside the sources).
  \<open>any_const\<close> is a matcher built without a value, on the candidate node, and it
  takes no part in the pattern.  It does not hand on the node bound to \<open>x\<close>: it
  takes the value held by that node, and its \<open>GetNode\<close> builds a constant with
  that value in the shape recorded for the candidate.  The routine that fills the
  tensor for a candidate and a value is outside the sources as well and is the
  parameter \<open>fill_tensor\<close>: when it gives a literal, that literal is stamped as a
  new value node; when it gives none (the candidate carries no shape yet, or the
  value does not fit it), the result is the null pointer.  A node bound to \<open>x\<close>
  that holds no value gives the null pointer too; the condition of the rule has
  excluded it by then.
\<close>

definition WithValueOf :: "(node_id \<Rightarrow> literal \<Rightarrow> literal option) \<Rightarrow> pvar \<Rightarrow> replacement" where
  "WithValueOf fill_tensor x s node b =
     (case captured b x of
        None \<Rightarrow> Inl NotCaptured
      | Some n \<Rightarrow>
          (case node_at s n of
             Some (ValueNode v) \<Rightarrow>
               (case fill_tensor node v of
                  None \<Rightarrow> Inr (None, s)
                | Some t \<Rightarrow> returned (Inr (NewValueNode s t)))
           | _ \<Rightarrow> Inr (None, s)))"

definition GetNode_prim2 :: "prim \<Rightarrow> pvar \<Rightarrow> pvar \<Rightarrow> replacement" where
  "GetNode_prim2 p x y s node b =
     (case (captured b x, captured b y) of
        (Some a1, Some a2) \<Rightarrow>
          (let (f, s1) = NewValueNode s (PrimVal p)
           in returned (NewCNode s1 [f, a1, a2] (func_graph s node)))
      | _ \<Rightarrow> Inl NotCaptured)"

section \<open>ArithmeticSimplify\<close>

abbreviation p_add :: "bool \<Rightarrow> pattern \<Rightarrow> pattern \<Rightarrow> pattern" where
  "p_add commutative a b \<equiv> PBinOperation kPrimTensorAdd a b commutative"

abbreviation p_mul :: "bool \<Rightarrow> pattern \<Rightarrow> pattern \<Rightarrow> pattern" where
  "p_mul commutative a b \<equiv> PBinOperation kPrimMul a b commutative"

text \<open>Lines 32 to 43, one definition per rule, named after the comment of its line.\<close>

definition add_by_zero :: "bool \<Rightarrow> rule" where
  "add_by_zero cm = MATCH_REPLACE (p_add cm (PatternNode PX) (PConstant P_zero)) (GetNode PX)"

definition add_by_zero_scalar :: "bool \<Rightarrow> rule" where
  "add_by_zero_scalar cm =
     MATCH_REPLACE (p_add cm (PatternNode PX) (PConstant P_zero_scalar)) (GetNode PX)"

definition scalar_add_by_zero_left :: rule where
  "scalar_add_by_zero_left =
     MATCH_REPLACE (PPrimitive kPrimScalarAdd [PConstant P_zero_scalar, PatternNode PX]) (GetNode PX)"

definition scalar_add_by_zero_right :: rule where
  "scalar_add_by_zero_right =
     MATCH_REPLACE (PPrimitive kPrimScalarAdd [PatternNode PX, PConstant P_zero_scalar]) (GetNode PX)"

definition multiply_by_one :: "bool \<Rightarrow> (node_id \<Rightarrow> literal \<Rightarrow> literal option) \<Rightarrow> rule" where
  "multiply_by_one cm fill_tensor =
     MATCH_REPLACE_IF (p_mul cm (PatternNode PX) (PConstant P_one))
       (WithValueOf fill_tensor PX) (CheckFunc PX IsVNode)"

definition scalar_mul_by_one_left :: rule where
  "scalar_mul_by_one_left =
     MATCH_REPLACE (PPrimitive kPrimScalarMul [PConstant P_one_scalar, PatternNode PX]) (GetNode PX)"

definition scalar_mul_by_one_right :: rule where
  "scalar_mul_by_one_right =
     MATCH_REPLACE (PPrimitive kPrimScalarMul [PatternNode PX, PConstant P_one_scalar]) (GetNode PX)"

definition scalar_mul_by_zero_left :: rule where
  "scalar_mul_by_zero_left =
     MATCH_REPLACE (PPrimitive kPrimScalarMul [PConstant P_zero_scalar, PatternNode PX])
       (NewValue P_zero)"

definition scalar_mul_by_zero_right :: rule where
  "scalar_mul_by_zero_right =
     MATCH_REPLACE (PPrimitive kPrimScalarMul [PatternNode PX, PConstant P_zero_scalar])
       (NewValue P_zero)"

definition prim_eliminate :: rule where
  "prim_eliminate = MATCH_REPLACE (PPrimitive kPrimIdentity [PatternNode PX]) (GetNode PX)"

text \<open>
  \<open>const_.MulByPatternConst(const_2, x)\<close>: the literal arithmetic routine is the
  parameter \<open>fold_literals\<close>; when it gives a literal, that literal is stamped as a
  new value node, otherwise the result is null.
\<close>

definition MulByPatternConst ::
  "(literal \<Rightarrow> literal \<Rightarrow> literal option) \<Rightarrow> graph \<Rightarrow> node_id \<Rightarrow> node_id
     \<Rightarrow> (node_id \<times> graph) option" where
  "MulByPatternConst fold_literals s c1 c2 =
     (case (node_at s c1, node_at s c2) of
        (Some (ValueNode v1), Some (ValueNode v2)) \<Rightarrow>
          (case fold_literals v1 v2 of
             None \<Rightarrow> None
           | Some v \<Rightarrow> Some (NewValueNode s v))
      | _ \<Rightarrow> None)"

text \<open>\<open>const_dup_lambda\<close> (lines 46 to 54).\<close>

definition const_dup_lambda :: "(literal \<Rightarrow> literal \<Rightarrow> literal option) \<Rightarrow> replacement" where
  "const_dup_lambda fold_literals s node b =
     (case (captured b PX, captured_const b P_const, captured_const b P_const_2,
            cnode_inputs s node) of
        (Some x, Some c1, Some c2, Some (mul_node # args)) \<Rightarrow>
          (case MulByPatternConst fold_literals s c1 c2 of
             None \<Rightarrow>
               (case NewCNode s [mul_node, c1, c2] (func_graph s node) of
                  Inl e \<Rightarrow> Inl e
                | Inr (ttmul, s1) \<Rightarrow>
                    returned (NewCNode s1 [mul_node, x, ttmul] (func_graph s node)))
           | Some (new_mul_tensor, s1) \<Rightarrow>
               returned (NewCNode s1 [mul_node, x, new_mul_tensor] (func_graph s node)))
      | _ \<Rightarrow> Inl NotCaptured)"

definition constant_duplicate_mul :: "bool \<Rightarrow> (literal \<Rightarrow> literal \<Rightarrow> literal option) \<Rightarrow> rule" where
  "constant_duplicate_mul cm fold_literals =
     MATCH_REPLACE_LAMBDA
       (p_mul cm (PConstant P_const) (p_mul cm (PConstant P_const_2) (PatternNode PX)))
       (const_dup_lambda fold_literals)"

definition opt_update_zero_tensor :: rule where
  "opt_update_zero_tensor =
     MATCH_REPLACE
       (PPrimitive kPrimMomentum
          [PPrimitive kPrimZerosLike [PatternNode PX], PatternNode PY, PatternNode PZ,
           PatternNode PXS])
       (GetNode_prim2 kPrimMakeTuple PZ PY)"

definition power_one_eliminate :: rule where
  "power_one_eliminate =
     MATCH_REPLACE (PPrimitive kPrimPow [PatternNode PX, PConstant P_one_scalar]) (GetNode PX)"

text \<open>The rules in the order of the source: the first one that fires returns.\<close>

fun first_match :: "rule list \<Rightarrow> rule" where
  "first_match [] s node = None"
| "first_match (r # rs) s node =
     (case r s node of
        None \<Rightarrow> first_match rs s node
      | Some res \<Rightarrow> Some res)"

definition ArithmeticSimplify ::
  "bool \<Rightarrow> (literal \<Rightarrow> literal \<Rightarrow> literal option) \<Rightarrow> (node_id \<Rightarrow> literal \<Rightarrow> literal option)
     \<Rightarrow> graph \<Rightarrow> node_id \<Rightarrow> fault + node_id option \<times> graph" where
  "ArithmeticSimplify cm fold_literals fill_tensor s node =
     (case first_match
             [add_by_zero cm, add_by_zero_scalar cm, scalar_add_by_zero_left,
              scalar_add_by_zero_right, multiply_by_one cm fill_tensor, scalar_mul_by_one_left,
              scalar_mul_by_one_right, scalar_mul_by_zero_left, scalar_mul_by_zero_right,
              prim_eliminate, constant_duplicate_mul cm fold_literals] s node of
        Some res \<Rightarrow> res
      | None \<Rightarrow>
          if func_graph s node = None then Inr (None, s)
          else (case first_match [opt_update_zero_tensor, power_one_eliminate] s node of
                  Some res \<Rightarrow> res
                | None \<Rightarrow> Inr (None, s)))"

section \<open>Shapes and well-formedness\<close>

text \<open>
  What the theorems say about a graph: \<open>prim_node s f p\<close>, the node \<open>f\<close> is the value
  node of the primitive \<open>p\<close>; \<open>call_node s n f args fg\<close>, the node \<open>n\<close> is the call of
  operator node \<open>f\<close> on the operands \<open>args\<close>, owned by sub-graph \<open>fg\<close>;
  \<open>matches_const s c n\<close>, the node \<open>n\<close> is a value node whose literal the constant
  matcher \<open>c\<close> accepts.
\<close>

definition prim_node :: "graph \<Rightarrow> node_id \<Rightarrow> prim \<Rightarrow> bool" where
  "prim_node s f p = (node_at s f = Some (ValueNode (PrimVal p)))"

definition call_node :: "graph \<Rightarrow> node_id \<Rightarrow> node_id \<Rightarrow> node_id list \<Rightarrow> fg_id option \<Rightarrow> bool" where
  "call_node s n f args fg = (node_at s n = Some (CNode (f # args) fg))"

definition matches_const :: "graph \<Rightarrow> pconst \<Rightarrow> node_id \<Rightarrow> bool" where
  "matches_const s c n =
     (case node_at s n of Some (ValueNode v) \<Rightarrow> const_matches c v | _ \<Rightarrow> False)"

text \<open>
  \<open>reduce_call s a\<close>: an AllReduce call with at least one operand.  \<open>reduce_mul s e\<close>:
  a Mul call one of whose operands, in any position, is such an AllReduce call.
\<close>

definition reduce_call :: "graph \<Rightarrow> node_id \<Rightarrow> bool" where
  "reduce_call s a =
     (IsPrimitiveCNode s a kPrimAllReduce \<and>
      (case cnode_inputs s a of Some (f # x # rest) \<Rightarrow> True | _ \<Rightarrow> False))"

definition reduce_mul :: "graph \<Rightarrow> node_id \<Rightarrow> bool" where
  "reduce_mul s e =
     (IsPrimitiveCNode s e kPrimMul \<and>
      (case cnode_inputs s e of Some (f # args) \<Rightarrow> list_ex (reduce_call s) args | _ \<Rightarrow> False))"

text \<open>
  The manager keeps the user map in step with the graph: every recorded pair
  \<open>(c, i)\<close> among the users of \<open>n\<close> is an edge, the call \<open>c\<close> has \<open>n\<close> as operand \<open>i\<close>.
\<close>

definition users_recorded :: "graph \<Rightarrow> bool" where
  "users_recorded s =
     list_all (\<lambda>(n, us).
        list_all (\<lambda>(c, i). case cnode_inputs s c of
                              Some inputs \<Rightarrow> i < length inputs \<and> inputs ! i = n
                            | None \<Rightarrow> False) us)
       (node_users s)"

text \<open>\<open>is_user s n e\<close>: the user map records the pair \<open>e\<close> among the users of \<open>n\<close>.\<close>

definition is_user :: "graph \<Rightarrow> node_id \<Rightarrow> node_id \<times> nat \<Rightarrow> bool" where
  "is_user s n e = (case users_of s n of Some us \<Rightarrow> e \<in> set us | None \<Rightarrow> False)"

text \<open>The operands of \<open>n\<close> once every recorded position of \<open>n\<close> in \<open>us\<close> holds \<open>v\<close>.\<close>

fun repoint :: "(node_id \<times> nat) list \<Rightarrow> node_id \<Rightarrow> node_id \<Rightarrow> node_id list \<Rightarrow> node_id list" where
  "repoint [] n v inputs = inputs"
| "repoint ((c, i) # us) n v inputs = repoint us n v (if c = n then inputs[i := v] else inputs)"

section \<open>Example graphs\<close>

definition v_init :: visitor where
  "v_init = \<lparr>m_level = 0, m_is_reduce_match = False, m_x = None, m_y = None, m_z = None,
     m_tmp = None, m_mul = None, m_mul_cnode = None, m_all_reduce = None,
     m_all_reduce_fg = None\<rparr>"

text \<open>
  \<open>g_reduce\<close>: node 10 is AddN(MakeTuple(Mul(AllReduce(x), y), z)) in sub-graph 0,
  with x = 4, y = 5 and z = 6 a call that lives in sub-graph 1.  The multiply
  (node 8) is also an operand of a second MakeTuple (node 11) and of a Mul
  (node 12).
\<close>

definition g_reduce :: graph where
  "g_reduce = \<lparr>nodes =
     [ValueNode (PrimVal kPrimAddN), ValueNode (PrimVal kPrimMakeTuple),
      ValueNode (PrimVal kPrimMul), ValueNode (PrimVal kPrimAllReduce),
      Parameter (Some 0), Parameter (Some 0), CNode [2, 4, 5] (Some 1),
      CNode [3, 4] (Some 0), CNode [2, 7, 5] (Some 0), CNode [1, 8, 6] (Some 0),
      CNode [0, 9] (Some 0), CNode [1, 8, 5] (Some 0), CNode [2, 8, 5] (Some 0)],
     node_users = [(8, [(9, 1), (11, 1), (12, 1)]), (9, [(10, 1)])]\<rparr>"

text \<open>\<open>g_swapped\<close>: node 10 is AddN(MakeTuple(Mul(y, AllReduce(x)), z)).\<close>

definition g_swapped :: graph where
  "g_swapped = \<lparr>nodes =
     [ValueNode (PrimVal kPrimAddN), ValueNode (PrimVal kPrimMakeTuple),
      ValueNode (PrimVal kPrimMul), ValueNode (PrimVal kPrimAllReduce),
      Parameter (Some 0), Parameter (Some 0), Parameter (Some 0),
      CNode [3, 4] (Some 0), CNode [2, 5, 7] (Some 0), CNode [1, 8, 6] (Some 0),
      CNode [0, 9] (Some 0)],
     node_users = []\<rparr>"

text \<open>\<open>g_both\<close>: node 11 is AddN(MakeTuple(Mul(AllReduce(a), b), Mul(AllReduce(b), a))).\<close>

definition g_both :: graph where
  "g_both = \<lparr>nodes =
     [ValueNode (PrimVal kPrimAddN), ValueNode (PrimVal kPrimMakeTuple),
      ValueNode (PrimVal kPrimMul), ValueNode (PrimVal kPrimAllReduce),
      Parameter (Some 0), Parameter (Some 0),
      CNode [3, 4] (Some 0), CNode [2, 6, 5] (Some 0),
      CNode [3, 5] (Some 0), CNode [2, 8, 4] (Some 0),
      CNode [1, 7, 9] (Some 0), CNode [0, 10] (Some 0)],
     node_users = []\<rparr>"

text \<open>\<open>g_plain\<close>: node 8 is AddN(MakeTuple(Mul(a, b), c)), with no AllReduce.\<close>

definition g_plain :: graph where
  "g_plain = \<lparr>nodes =
     [ValueNode (PrimVal kPrimAddN), ValueNode (PrimVal kPrimMakeTuple),
      ValueNode (PrimVal kPrimMul),
      Parameter (Some 0), Parameter (Some 0), Parameter (Some 0),
      CNode [2, 3, 4] (Some 0), CNode [1, 6, 5] (Some 0), CNode [0, 7] (Some 0)],
     node_users = []\<rparr>"

text \<open>\<open>g_three\<close>: node 10 is AddN(MakeTuple(Mul(AllReduce(x), y), z, y)).\<close>

definition g_three :: graph where
  "g_three = \<lparr>nodes =
     [ValueNode (PrimVal kPrimAddN), ValueNode (PrimVal kPrimMakeTuple),
      ValueNode (PrimVal kPrimMul), ValueNode (PrimVal kPrimAllReduce),
      Parameter (Some 0), Parameter (Some 0), Parameter (Some 0),
      CNode [3, 4] (Some 0), CNode [2, 7, 5] (Some 0), CNode [1, 8, 6, 5] (Some 0),
      CNode [0, 9] (Some 0)],
     node_users = []\<rparr>"

text \<open>
  \<open>g_arith\<close>: the operators Mul (0), ScalarMul (1), TensorAdd (2), ScalarAdd (3);
  two zero literals (4, 5), the literal one (6), a parameter p (7), a tensor
  constant (8) and the literal two (9); then the candidates
  10 = 8 * 1, 11 = p * 1, 12 = scalar_mul(1, p), 13 = scalar_mul(p, 1),
  14 = p + 0, 15 = scalar_add(0, p), 16 = scalar_add(p, 0), 17 = 0 + p,
  18 = scalar_add(0, 0) over the two zero nodes, 19 = scalar_mul(0, p),
  20 = scalar_mul(p, 0), 21 = scalar_mul(0, 1), 22 = 2 * p, 23 = 8 * (2 * p),
  24 = 2 * (2 * p), and the calls 25 = 2 * p, 26 = 8 * (2 * p), 27 = 2 * (2 * p)
  that belong to no sub-graph.
\<close>

definition g_arith :: graph where
  "g_arith = \<lparr>nodes =
     [ValueNode (PrimVal kPrimMul), ValueNode (PrimVal kPrimScalarMul),
      ValueNode (PrimVal kPrimTensorAdd), ValueNode (PrimVal kPrimScalarAdd),
      ValueNode (Int32Imm 0), ValueNode (Int32Imm 0), ValueNode (Int32Imm 1),
      Parameter (Some 0), ValueNode (TensorVal [2] [3, 3]), ValueNode (Int32Imm 2),
      CNode [0, 8, 6] (Some 0), CNode [0, 7, 6] (Some 0),
      CNode [1, 6, 7] (Some 0), CNode [1, 7, 6] (Some 0),
      CNode [2, 7, 4] (Some 0), CNode [3, 4, 7] (Some 0),
      CNode [3, 7, 4] (Some 0), CNode [2, 4, 7] (Some 0),
      CNode [3, 4, 5] (Some 0), CNode [1, 4, 7] (Some 0),
      CNode [1, 7, 4] (Some 0), CNode [1, 4, 6] (Some 0),
      CNode [0, 9, 7] (Some 0), CNode [0, 8, 22] (Some 0), CNode [0, 9, 22] (Some 0),
      CNode [0, 9, 7] None, CNode [0, 8, 25] None, CNode [0, 9, 25] None],
     node_users = []\<rparr>"

text \<open>
  \<open>g_momentum\<close>: node 9 is Momentum(ZerosLike(g), m, v, e) and node 10 is
  pow(g, 1), both belonging to no sub-graph; node 11 is the same Momentum call in
  sub-graph 0.
\<close>

definition g_momentum :: graph where
  "g_momentum = \<lparr>nodes =
     [ValueNode (PrimVal kPrimMomentum), ValueNode (PrimVal kPrimZerosLike),
      ValueNode (PrimVal kPrimPow), ValueNode (Int32Imm 1),
      Parameter (Some 0), Parameter (Some 0), Parameter (Some 0), Parameter (Some 0),
      CNode [1, 4] (Some 0), CNode [0, 8, 5, 6, 7] None, CNode [2, 4, 3] None,
      CNode [0, 8, 5, 6, 7] (Some 0)],
     node_users = []\<rparr>"

text \<open>Two literal arithmetic routines: one that never folds, one that folds integers.\<close>

definition fold_none :: "literal \<Rightarrow> literal \<Rightarrow> literal option" where
  "fold_none a b = None"

definition fold_ints :: "literal \<Rightarrow> literal \<Rightarrow> literal option" where
  "fold_ints a b =
     (case (a, b) of (Int32Imm i, Int32Imm j) \<Rightarrow> Some (Int32Imm (i * j)) | _ \<Rightarrow> None)"

text \<open>
  Two tensor-filling routines: one for candidates that carry no shape, which never
  gives a tensor, and one that gives the value as it is.
\<close>

definition fill_none :: "node_id \<Rightarrow> literal \<Rightarrow> literal option" where
  "fill_none node v = None"


section \<open>Lemmas\<close>

subsection \<open>Calls and primitives\<close>

lemma call_inputs: "call_node s n f args fg \<Longrightarrow> cnode_inputs s n = Some (f # args)"
  by (simp add: call_node_def cnode_inputs_def)

lemma call_input0: "call_node s n f args fg \<Longrightarrow> cnode_input0 s n = Some f"
  by (simp add: call_node_def cnode_inputs_def cnode_input0_def)

lemma call_func_graph: "call_node s n f args fg \<Longrightarrow> func_graph s n = fg"
  by (simp add: call_node_def func_graph_def)

lemma call_prim: "call_node s n f args fg \<Longrightarrow> IsPrimitiveCNode s n p = prim_node s f p"
  by (simp add: call_node_def cnode_inputs_def IsPrimitiveCNode_def prim_node_def)

lemma prim_node_eq: "prim_node s f p \<Longrightarrow> prim_node s f q = (p = q)"
  by (auto simp: prim_node_def)

subsection \<open>The visitor\<close>

lemma level1_fields:
  "m_level (Visit_level1 s v n) = m_level v"
  "m_y (Visit_level1 s v n) = m_y v"
  "m_z (Visit_level1 s v n) = m_z v"
  "m_mul (Visit_level1 s v n) = m_mul v"
  "m_mul_cnode (Visit_level1 s v n) = m_mul_cnode v"
  by (simp_all add: Visit_level1_def split: option.splits list.splits)

lemma level1_match_mono:
  "m_is_reduce_match v \<Longrightarrow> m_is_reduce_match (Visit_level1 s v n)"
  by (simp add: Visit_level1_def split: option.splits list.splits)

lemma level1_nomatch:
  "\<not> m_is_reduce_match (Visit_level1 s v n) \<Longrightarrow>
     m_x (Visit_level1 s v n) = m_x v \<and> m_all_reduce (Visit_level1 s v n) = m_all_reduce v \<and>
     m_all_reduce_fg (Visit_level1 s v n) = m_all_reduce_fg v \<and> \<not> m_is_reduce_match v"
  by (auto simp add: Visit_level1_def split: option.splits list.splits if_splits)

lemma fold_level1_fields:
  "m_level (fold (\<lambda>a w. Visit_level1 s w a) args v) = m_level v"
  "m_y (fold (\<lambda>a w. Visit_level1 s w a) args v) = m_y v"
  "m_z (fold (\<lambda>a w. Visit_level1 s w a) args v) = m_z v"
  "m_mul (fold (\<lambda>a w. Visit_level1 s w a) args v) = m_mul v"
  "m_mul_cnode (fold (\<lambda>a w. Visit_level1 s w a) args v) = m_mul_cnode v"
  by (induction args arbitrary: v; simp add: level1_fields)+

lemma fold_level1_match_mono:
  "m_is_reduce_match v \<Longrightarrow> m_is_reduce_match (fold (\<lambda>a w. Visit_level1 s w a) args v)"
  by (induction args arbitrary: v) (simp_all add: level1_match_mono)

lemma fold_level1_nomatch:
  "\<not> m_is_reduce_match (fold (\<lambda>a w. Visit_level1 s w a) args v) \<Longrightarrow>
     m_x (fold (\<lambda>a w. Visit_level1 s w a) args v) = m_x v \<and>
     m_all_reduce (fold (\<lambda>a w. Visit_level1 s w a) args v) = m_all_reduce v \<and>
     m_all_reduce_fg (fold (\<lambda>a w. Visit_level1 s w a) args v) = m_all_reduce_fg v"
proof (induction args arbitrary: v)
  case Nil
  then show ?case by simp
next
  case (Cons a args)
  from Cons.prems have n: "\<not> m_is_reduce_match (Visit_level1 s v a)"
    using fold_level1_match_mono by fastforce
  from Cons.IH [of "Visit_level1 s v a"] Cons.prems level1_nomatch [OF n]
  show ?case by simp
qed

lemma level1_match_iff:
  "m_level v = 1 \<Longrightarrow>
     m_is_reduce_match (Visit_level1 s v a) = (m_is_reduce_match v \<or> reduce_call s a)"
  by (auto simp: Visit_level1_def reduce_call_def split: option.splits list.splits)

lemma fold_level1_match_iff:
  "m_level v = 1 \<Longrightarrow>
     m_is_reduce_match (fold (\<lambda>a w. Visit_level1 s w a) args v) =
       (m_is_reduce_match v \<or> list_ex (reduce_call s) args)"
  by (induction args arbitrary: v) (auto simp: level1_match_iff level1_fields)

lemma Match_Mul_unfold:
  "Match Visit_level1 kPrimMul [] s v e =
     (if IsPrimitiveCNode s e kPrimMul
      then fold (\<lambda>a w. Visit_level1 s w a) (tl (the (cnode_inputs s e))) v else v)"
  by (auto simp: Match_def IsPrimitiveCNode_def split: option.splits list.splits)

lemma Match_Mul_fields:
  "m_level (Match Visit_level1 kPrimMul [] s v e) = m_level v"
  "m_y (Match Visit_level1 kPrimMul [] s v e) = m_y v"
  "m_z (Match Visit_level1 kPrimMul [] s v e) = m_z v"
  "m_mul (Match Visit_level1 kPrimMul [] s v e) = m_mul v"
  "m_mul_cnode (Match Visit_level1 kPrimMul [] s v e) = m_mul_cnode v"
  by (simp_all add: Match_Mul_unfold fold_level1_fields)

lemma Match_Mul_match_iff:
  "m_level v = 1 \<Longrightarrow> \<not> m_is_reduce_match v \<Longrightarrow>
     m_is_reduce_match (Match Visit_level1 kPrimMul [] s v e) = reduce_mul s e"
  by (auto simp: Match_Mul_unfold fold_level1_match_iff reduce_mul_def IsPrimitiveCNode_def
      split: option.splits list.splits)

lemma Match_Mul_nomatch:
  "\<not> m_is_reduce_match (Match Visit_level1 kPrimMul [] s v e) \<Longrightarrow>
     m_x (Match Visit_level1 kPrimMul [] s v e) = m_x v \<and>
     m_all_reduce (Match Visit_level1 kPrimMul [] s v e) = m_all_reduce v \<and>
     m_all_reduce_fg (Match Visit_level1 kPrimMul [] s v e) = m_all_reduce_fg v"
  using fold_level1_nomatch [of s "tl (the (cnode_inputs s e))" v]
  by (simp add: Match_Mul_unfold split: if_splits)

lemma Visit_unfold:
  "m_level v = 0 \<Longrightarrow>
     Visit s v e =
       (let vb = Match Visit_level1 kPrimMul [] s (v\<lparr>m_level := 1, m_is_reduce_match := False\<rparr>) e;
            vc = vb\<lparr>m_level := 0\<rparr>
        in if m_is_reduce_match vc
           then vc\<lparr>m_mul := cnode_input0 s e, m_mul_cnode := Some e, m_y := m_tmp vc\<rparr>
           else vc\<lparr>m_z := Some e\<rparr>)"
  by (simp add: Visit_def Let_def Visit_level1_def)

lemma Visit_level: "m_level v = 0 \<Longrightarrow> m_level (Visit s v e) = 0"
  by (simp add: Visit_unfold Let_def)

lemma Visit_match_iff: "m_level v = 0 \<Longrightarrow> m_is_reduce_match (Visit s v e) = reduce_mul s e"
  by (simp add: Visit_unfold Let_def Match_Mul_match_iff)

lemma Visit_match:
  "m_level v = 0 \<Longrightarrow> reduce_mul s e \<Longrightarrow>
     m_z (Visit s v e) = m_z v \<and> m_mul_cnode (Visit s v e) = Some e \<and>
     m_mul (Visit s v e) = cnode_input0 s e \<and>
     m_y (Visit s v e) = m_tmp (Visit s v e)"
  by (simp add: Visit_unfold Let_def Match_Mul_match_iff Match_Mul_fields)

lemma Visit_nomatch:
  "m_level v = 0 \<Longrightarrow> \<not> reduce_mul s e \<Longrightarrow>
     m_z (Visit s v e) = Some e \<and> m_x (Visit s v e) = m_x v \<and> m_y (Visit s v e) = m_y v \<and>
     m_all_reduce (Visit s v e) = m_all_reduce v \<and>
     m_all_reduce_fg (Visit s v e) = m_all_reduce_fg v \<and>
     m_mul (Visit s v e) = m_mul v \<and> m_mul_cnode (Visit s v e) = m_mul_cnode v"
proof -
  assume l: "m_level v = 0" and n: "\<not> reduce_mul s e"
  let ?va = "v\<lparr>m_level := 1, m_is_reduce_match := False\<rparr>"
  have nm: "\<not> m_is_reduce_match (Match Visit_level1 kPrimMul [] s ?va e)"
    using n by (simp add: Match_Mul_match_iff)
  from Match_Mul_nomatch [OF nm] nm show ?thesis
    by (simp add: Visit_unfold [OF l] Let_def Match_Mul_fields)
qed

lemma Match_MakeTuple_two:
  "cnode_inputs s mt = Some [f, e1, e2] \<Longrightarrow> IsPrimitiveCNode s mt kPrimMakeTuple \<Longrightarrow>
     Match Visit kPrimMakeTuple [IsNode, IsNode] s v mt = Visit s (Visit s v e1) e2"
  by (simp add: Match_def IsNode_def)

lemma Match_MakeTuple_other:
  "cnode_inputs s mt = Some (f # elems) \<Longrightarrow> length elems \<noteq> 2 \<Longrightarrow>
     Match Visit kPrimMakeTuple [IsNode, IsNode] s v mt = v"
  by (simp add: Match_def)

lemma Match_MakeTuple_not:
  "\<not> IsPrimitiveCNode s mt kPrimMakeTuple \<Longrightarrow>
     Match Visit kPrimMakeTuple [IsNode, IsNode] s v mt = v"
  by (simp add: Match_def)

lemma Reset_fields:
  "m_level (Reset v) = 0" "m_x (Reset v) = None" "m_y (Reset v) = None" "m_z (Reset v) = None"
  "m_all_reduce_fg (Reset v) = None" "m_tmp (Reset v) = None" "\<not> m_is_reduce_match (Reset v)"
  by (simp_all add: Reset_def)

lemma no_x_no_rewrite:
  "m_x (Match Visit kPrimMakeTuple [IsNode, IsNode] s (Reset v0) mt) = None \<Longrightarrow>
   cnode_inputs s node = Some [f, mt] \<Longrightarrow>
   fst (AdjustAllReduceMulAdd v0 s node) = None \<and> fst (snd (AdjustAllReduceMulAdd v0 s node)) = s"
  by (simp add: AdjustAllReduceMulAdd_def Let_def)

lemma no_z_no_rewrite:
  "m_z (Match Visit kPrimMakeTuple [IsNode, IsNode] s (Reset v0) mt) = None \<Longrightarrow>
   cnode_inputs s node = Some [f, mt] \<Longrightarrow>
   fst (AdjustAllReduceMulAdd v0 s node) = None \<and> fst (snd (AdjustAllReduceMulAdd v0 s node)) = s \<and>
   m_z (snd (snd (AdjustAllReduceMulAdd v0 s node))) = None"
  by (simp add: AdjustAllReduceMulAdd_def Let_def Reset_fields split: option.splits)

lemma no_z_state:
  "m_z (Match Visit kPrimMakeTuple [IsNode, IsNode] s (Reset v0) mt) = None \<Longrightarrow>
   cnode_inputs s node = Some [f, mt] \<Longrightarrow> IsPrimitiveCNode s node kPrimAddN \<Longrightarrow>
   snd (snd (AdjustAllReduceMulAdd v0 s node)) =
     Match Visit kPrimMakeTuple [IsNode, IsNode] s (Reset v0) mt"
  by (simp add: AdjustAllReduceMulAdd_def Let_def split: option.splits)

subsection \<open>Edge replacement and the loop over the users\<close>

lemma node_at_SetEdge:
  "node_at (SetEdge t c i v) n =
     (if n = c
      then map_option (\<lambda>nd. case nd of CNode inputs fg \<Rightarrow> CNode (inputs[i := v]) fg
                                | other \<Rightarrow> other) (node_at t c)
      else node_at t n)"
  by (auto simp: SetEdge_def node_at_def list_update_beyond split: option.splits anf_node.splits)

lemma cnode_inputs_SetEdge:
  "cnode_inputs (SetEdge t c i v) n =
     (if n = c then map_option (\<lambda>inputs. inputs[i := v]) (cnode_inputs t c) else cnode_inputs t n)"
  by (auto simp: cnode_inputs_def node_at_SetEdge split: option.splits anf_node.splits)

lemma value_node_SetEdge:
  "node_at (SetEdge t c i v) f = Some (ValueNode l) \<longleftrightarrow> node_at t f = Some (ValueNode l)"
proof (cases "node_at t c")
  case None
  then show ?thesis by (simp add: node_at_SetEdge)
next
  case (Some nd)
  then show ?thesis by (cases nd) (simp_all add: node_at_SetEdge)
qed

lemma IsPrimitiveCNode_SetEdge:
  "0 < i \<Longrightarrow> IsPrimitiveCNode (SetEdge t c i v) n p = IsPrimitiveCNode t n p"
  by (cases i)
     (auto simp: IsPrimitiveCNode_def cnode_inputs_SetEdge value_node_SetEdge
        split: option.splits list.splits)

lemma users_loop_other:
  "list_all (\<lambda>(c, i). c \<noteq> n) us \<Longrightarrow>
     node_at (ProcessDependEdge_users mt v us t) n = node_at t n"
proof (induction us arbitrary: t)
  case Nil
  then show ?case by simp
next
  case (Cons u us)
  obtain c i where u: "u = (c, i)" by (cases u)
  from Cons.prems have "c \<noteq> n" "list_all (\<lambda>(c, i). c \<noteq> n) us" by (simp_all add: u)
  then show ?case
    by (simp add: u Cons.IH node_at_SetEdge split: option.splits anf_node.splits)
qed

lemma users_loop_nodes:
  assumes "list_all (\<lambda>(c, i). IsPrimitiveCNode t c kPrimMakeTuple \<longrightarrow> 0 < i) us"
  shows "node_at (ProcessDependEdge_users mt v us t) n =
     (case node_at t n of
        Some (CNode inputs fg) \<Rightarrow>
          Some (CNode (if n \<noteq> mt \<and> IsPrimitiveCNode t n kPrimMakeTuple
                       then repoint us n v inputs else inputs) fg)
      | other \<Rightarrow> other)"
  using assms
proof (induction us arbitrary: t)
  case Nil
  then show ?case by (simp split: option.splits anf_node.splits)
next
  case (Cons u us)
  obtain c i where u: "u = (c, i)" by (cases u)
  let ?t1 = "if c \<noteq> mt then (if IsPrimitiveCNode t c kPrimMakeTuple then SetEdge t c i v else t) else t"
  have pos: "IsPrimitiveCNode t c kPrimMakeTuple \<Longrightarrow> 0 < i"
    using Cons.prems by (simp add: u)
  have same: "IsPrimitiveCNode ?t1 k p = IsPrimitiveCNode t k p" for k p
    using pos by (simp add: IsPrimitiveCNode_SetEdge)
  have "list_all (\<lambda>(c, i). IsPrimitiveCNode ?t1 c kPrimMakeTuple \<longrightarrow> 0 < i) us"
    using Cons.prems unfolding same by (simp add: u)
  from Cons.IH [OF this]
  have step: "node_at (ProcessDependEdge_users mt v (u # us) t) n =
     (case node_at ?t1 n of
        Some (CNode inputs fg) \<Rightarrow>
          Some (CNode (if n \<noteq> mt \<and> IsPrimitiveCNode t n kPrimMakeTuple
                       then repoint us n v inputs else inputs) fg)
      | other \<Rightarrow> other)"
    unfolding same by (simp add: u)
  show ?case
  proof (cases "c \<noteq> mt \<and> IsPrimitiveCNode t c kPrimMakeTuple")
    case True
    then show ?thesis
      unfolding step
      by (auto simp: u node_at_SetEdge split: option.splits anf_node.splits)
  next
    case False
    then show ?thesis
      unfolding step
      by (auto simp: u split: option.splits anf_node.splits)
  qed
qed

lemma repoint_length: "length (repoint us n v inputs) = length inputs"
  by (induction us n v inputs rule: repoint.induct) simp_all

lemma repoint_keeps:
  "i < length inputs \<Longrightarrow> inputs ! i = v \<Longrightarrow> repoint us n v inputs ! i = v"
proof (induction us arbitrary: inputs)
  case Nil
  then show ?case by simp
next
  case (Cons u us)
  obtain c j where u: "u = (c, j)" by (cases u)
  have "(inputs[j := v]) ! i = v"
    using Cons.prems by (cases "j = i") simp_all
  with Cons.prems show ?case
    by (simp add: u Cons.IH)
qed

lemma repoint_sets:
  "(n, i) \<in> set us \<Longrightarrow> i < length inputs \<Longrightarrow> repoint us n v inputs ! i = v"
proof (induction us arbitrary: inputs)
  case Nil
  then show ?case by simp
next
  case (Cons u us)
  obtain c j where u: "u = (c, j)" by (cases u)
  show ?case
  proof (cases "(n, i) = (c, j)")
    case True
    then show ?thesis using Cons.prems by (simp add: u repoint_keeps)
  next
    case False
    with Cons.prems have m: "(n, i) \<in> set us" by (auto simp: u)
    have "repoint us n v xs ! i = v" if "length xs = length inputs" for xs
      using Cons.IH [OF m, of xs] Cons.prems(2) that by simp
    then show ?thesis by (simp add: u)
  qed
qed

lemma users_recorded_entry:
  assumes "users_recorded s" "users_of s m = Some us"
  shows "list_all (\<lambda>(c, i). case cnode_inputs s c of
                              Some inputs \<Rightarrow> i < length inputs \<and> inputs ! i = m
                            | None \<Rightarrow> False) us"
proof -
  from assms(2) have "(m, us) \<in> set (node_users s)"
    by (simp add: users_of_def map_of_SomeD)
  with assms(1) show ?thesis
    by (auto simp: users_recorded_def list_all_iff)
qed

lemma cnode_inputs_valid: "cnode_inputs s c = Some inputs \<Longrightarrow> c < length (nodes s)"
  by (simp add: cnode_inputs_def node_at_def split: if_splits)

lemma users_recorded_old:
  assumes "users_recorded s" "users_of s m = Some us" "length (nodes s) \<le> n"
  shows "list_all (\<lambda>(c, i). c \<noteq> n) us"
proof -
  have "c \<noteq> n" if "(c, i) \<in> set us" for c i
  proof -
    from users_recorded_entry [OF assms(1,2)] that
    obtain inputs where "cnode_inputs s c = Some inputs"
      by (auto simp: list_all_iff split: option.splits)
    then have "c < length (nodes s)" by (rule cnode_inputs_valid)
    with assms(3) show ?thesis by simp
  qed
  then show ?thesis by (auto simp: list_all_iff)
qed

lemma ProcessDependEdge_new:
  assumes "users_recorded s" "node_users t = node_users s" "length (nodes s) \<le> n"
  shows "node_at (ProcessDependEdge v t fg mt new) n = node_at t n"
proof (cases "m_mul_cnode v")
  case None
  then show ?thesis by (simp add: ProcessDependEdge_def)
next
  case (Some m)
  show ?thesis
  proof (cases "users_of s m")
    case None
    then show ?thesis
      using Some assms(2) by (simp add: ProcessDependEdge_def users_of_def)
  next
    case (Some us)
    have "users_of t m = Some us"
      using Some assms(2) by (simp add: users_of_def)
    then show ?thesis
      using \<open>m_mul_cnode v = Some m\<close> users_recorded_old [OF assms(1) Some assms(3)]
      by (simp add: ProcessDependEdge_def users_loop_other)
  qed
qed

lemma map_of_update_entry:
  "map_of (map (\<lambda>(k, us). if k = n then (k, g us) else (k, us)) m) k =
     (if k = n then map_option g (map_of m k) else map_of m k)"
  by (induction m) auto

lemma map_of_drop_user:
  "map_of (drop_user n e m) k =
     (if k = n then map_option (removeAll e) (map_of m k) else map_of m k)"
  unfolding drop_user_def by (rule map_of_update_entry)

lemma map_of_add_user:
  "map_of (add_user n e m) k =
     (if k = n
      then Some (case map_of m n of None \<Rightarrow> [e]
                 | Some us \<Rightarrow> if e \<in> set us then us else us @ [e])
      else map_of m k)"
proof (cases "map_of m n")
  case None
  then show ?thesis
    by (auto simp: add_user_def map_add_def split: option.splits)
next
  case (Some us)
  then show ?thesis
    by (simp add: add_user_def map_of_update_entry)
qed

lemma is_user_SetEdge:
  assumes "node_at t c = Some (CNode inputs fg)" "i < length inputs"
  shows "is_user (SetEdge t c i v) n e =
     (if e = (c, i) then n = v \<or> (n \<noteq> inputs ! i \<and> is_user t n e) else is_user t n e)"
  using assms
  by (auto simp: is_user_def users_of_def SetEdge_def map_of_add_user map_of_drop_user
      split: option.splits)

lemma is_user_SetEdge_other:
  "e \<noteq> (c, i) \<Longrightarrow> is_user (SetEdge t c i v) n e = is_user t n e"
proof (cases "\<exists>inputs fg. node_at t c = Some (CNode inputs fg) \<and> i < length inputs")
  case True
  then show "e \<noteq> (c, i) \<Longrightarrow> ?thesis" by (auto simp: is_user_SetEdge)
next
  case False
  then have "SetEdge t c i v = t"
    by (auto simp: SetEdge_def split: option.splits anf_node.splits)
  then show ?thesis by simp
qed

lemma users_loop_prim:
  assumes "list_all (\<lambda>(c, i). IsPrimitiveCNode t c kPrimMakeTuple \<longrightarrow> 0 < i) us"
  shows "IsPrimitiveCNode (ProcessDependEdge_users mt v us t) n p = IsPrimitiveCNode t n p"
  using assms
proof (induction us arbitrary: t)
  case Nil
  then show ?case by simp
next
  case (Cons u us)
  obtain c i where u: "u = (c, i)" by (cases u)
  let ?t1 = "if c \<noteq> mt then (if IsPrimitiveCNode t c kPrimMakeTuple then SetEdge t c i v else t) else t"
  have pos: "IsPrimitiveCNode t c kPrimMakeTuple \<Longrightarrow> 0 < i"
    using Cons.prems by (simp add: u)
  have same: "IsPrimitiveCNode ?t1 k q = IsPrimitiveCNode t k q" for k q
    using pos by (simp add: IsPrimitiveCNode_SetEdge)
  have "list_all (\<lambda>(c, i). IsPrimitiveCNode ?t1 c kPrimMakeTuple \<longrightarrow> 0 < i) us"
    using Cons.prems unfolding same by (simp add: u)
  from Cons.IH [OF this] show ?case
    unfolding same by (simp add: u)
qed

lemma users_loop_kept:
  assumes "list_all (\<lambda>(c, i). IsPrimitiveCNode t c kPrimMakeTuple \<longrightarrow> 0 < i) us"
    and "c = mt \<or> \<not> IsPrimitiveCNode t c kPrimMakeTuple"
  shows "is_user (ProcessDependEdge_users mt v us t) n (c, i) = is_user t n (c, i)"
  using assms
proof (induction us arbitrary: t)
  case Nil
  then show ?case by simp
next
  case (Cons u us)
  obtain c' i' where u: "u = (c', i')" by (cases u)
  let ?t1 = "if c' \<noteq> mt then (if IsPrimitiveCNode t c' kPrimMakeTuple then SetEdge t c' i' v else t) else t"
  have pos: "IsPrimitiveCNode t c' kPrimMakeTuple \<Longrightarrow> 0 < i'"
    using Cons.prems(1) by (simp add: u)
  have same: "IsPrimitiveCNode ?t1 k q = IsPrimitiveCNode t k q" for k q
    using pos by (simp add: IsPrimitiveCNode_SetEdge)
  have p1: "list_all (\<lambda>(c, i). IsPrimitiveCNode ?t1 c kPrimMakeTuple \<longrightarrow> 0 < i) us"
    using Cons.prems(1) unfolding same by (simp add: u)
  have p2: "c = mt \<or> \<not> IsPrimitiveCNode ?t1 c kPrimMakeTuple"
    using Cons.prems(2) unfolding same .
  have step: "is_user ?t1 n (c, i) = is_user t n (c, i)"
  proof (cases "c' \<noteq> mt \<and> IsPrimitiveCNode t c' kPrimMakeTuple")
    case True
    with Cons.prems(2) have "c' \<noteq> c" by auto
    then show ?thesis using True by (simp add: is_user_SetEdge_other)
  next
    case False
    then show ?thesis by auto
  qed
  from Cons.IH [OF p1 p2] step show ?case by (simp add: u)
qed

lemma users_loop_repointed:
  assumes "list_all (\<lambda>(c, i). IsPrimitiveCNode t c kPrimMakeTuple \<longrightarrow> 0 < i) us"
    and "c \<noteq> mt" "IsPrimitiveCNode t c kPrimMakeTuple" "m \<noteq> v"
    and "cnode_inputs t c = Some inputs" "i < length inputs"
    and "(inputs ! i = m \<and> (c, i) \<in> set us) \<or>
         (inputs ! i = v \<and> is_user t v (c, i) \<and> \<not> is_user t m (c, i))"
  shows "is_user (ProcessDependEdge_users mt v us t) v (c, i) \<and>
         \<not> is_user (ProcessDependEdge_users mt v us t) m (c, i)"
  using assms
proof (induction us arbitrary: t inputs)
  case Nil
  then show ?case by simp
next
  case (Cons u us)
  obtain c' i' where u: "u = (c', i')" by (cases u)
  let ?t1 = "if c' \<noteq> mt then (if IsPrimitiveCNode t c' kPrimMakeTuple then SetEdge t c' i' v else t) else t"
  have pos: "IsPrimitiveCNode t c' kPrimMakeTuple \<Longrightarrow> 0 < i'"
    using Cons.prems(1) by (simp add: u)
  have same: "IsPrimitiveCNode ?t1 k q = IsPrimitiveCNode t k q" for k q
    using pos by (simp add: IsPrimitiveCNode_SetEdge)
  have p1: "list_all (\<lambda>(c, i). IsPrimitiveCNode ?t1 c kPrimMakeTuple \<longrightarrow> 0 < i) us"
    using Cons.prems(1) unfolding same by (simp add: u)
  have p3: "IsPrimitiveCNode ?t1 c kPrimMakeTuple"
    using Cons.prems(3) unfolding same .
  obtain fgc where nc: "node_at t c = Some (CNode inputs fgc)"
    using Cons.prems(5) by (auto simp: cnode_inputs_def split: option.splits anf_node.splits)
  show ?case
  proof (cases "(c', i') = (c, i)")
    case True
    then have t1: "?t1 = SetEdge t c i v"
      using Cons.prems(2,3) by simp
    have i1: "cnode_inputs ?t1 c = Some (inputs[i := v])"
      unfolding t1 using Cons.prems(5) by (simp add: cnode_inputs_SetEdge)
    have r: "(inputs[i := v]) ! i = v \<and> is_user ?t1 v (c, i) \<and> \<not> is_user ?t1 m (c, i)"
      unfolding t1 using Cons.prems(4,6,7) by (auto simp: is_user_SetEdge [OF nc])
    from Cons.IH [OF p1 Cons.prems(2) p3 Cons.prems(4) i1] r Cons.prems(6)
    show ?thesis by (simp add: u)
  next
    case False
    have keep: "is_user ?t1 k (c, i) = is_user t k (c, i)" for k
      using False by (auto simp: is_user_SetEdge_other)
    have "\<exists>inputs1. cnode_inputs ?t1 c = Some inputs1 \<and> length inputs1 = length inputs \<and>
                     inputs1 ! i = inputs ! i"
      using False Cons.prems(5,6) by (auto simp: cnode_inputs_SetEdge)
    then obtain inputs1 where i1: "cnode_inputs ?t1 c = Some inputs1"
      "length inputs1 = length inputs" "inputs1 ! i = inputs ! i" by blast
    have alt: "(inputs1 ! i = m \<and> (c, i) \<in> set us) \<or>
         (inputs1 ! i = v \<and> is_user ?t1 v (c, i) \<and> \<not> is_user ?t1 m (c, i))"
      using Cons.prems(7) False unfolding keep i1(3) by (auto simp: u)
    from Cons.IH [OF p1 Cons.prems(2) p3 Cons.prems(4) i1(1) _ alt] i1(2) Cons.prems(6)
    show ?thesis by (simp add: u)
  qed
qed

subsection \<open>The accepting run\<close>

lemma accept_form:
  assumes "IsPrimitiveCNode s node kPrimAddN" "cnode_inputs s node = Some [addn_op, mt]"
    and "cnode_inputs s mt = Some (mt_op # elems)"
    and "Match Visit kPrimMakeTuple [IsNode, IsNode] s (Reset v0) mt = w"
    and "m_x w = Some x" "m_y w = Some y" "m_z w = Some z" "m_all_reduce_fg w = Some fg"
    and "m_all_reduce w = Some ar_op" "m_mul w = Some mul_op"
    and "pre = (case cnode_inputs s z of
                  Some zin \<Rightarrow> if Some fg \<noteq> func_graph s z then [CNode zin (Some fg)] else []
                | None \<Rightarrow> [])"
    and "z' = (if pre = [] then z else length (nodes s))"
    and "k = length (nodes s) + length pre"
  shows "AdjustAllReduceMulAdd v0 s node =
     (Some (k + 3),
      ProcessDependEdge (w\<lparr>m_z := Some z'\<rparr>)
        (s\<lparr>nodes := nodes s @ pre @
             [CNode [mt_op, z', x] (Some fg), CNode [addn_op, k] (Some fg),
              CNode [ar_op, k + 1] (Some fg), CNode [mul_op, k + 2, y] (Some fg)]\<rparr>)
        fg mt (k + 2),
      w\<lparr>m_z := Some z'\<rparr>)"
  using assms
  by (simp add: AdjustAllReduceMulAdd_def Let_def FuncGraph_NewCNode_def
      split: option.splits)

lemma run_bindings:
  assumes "IsPrimitiveCNode s node kPrimAddN" "cnode_inputs s node = Some [addn_op, mt]"
    and "AdjustAllReduceMulAdd v0 s node = (r, s', v')"
    and "Match Visit kPrimMakeTuple [IsNode, IsNode] s (Reset v0) mt = w"
  shows "m_x v' = m_x w \<and> m_y v' = m_y w \<and> m_all_reduce_fg v' = m_all_reduce_fg w \<and>
         (m_z v' = None) = (m_z w = None) \<and> m_mul_cnode v' = m_mul_cnode w"
  using assms
  by (auto simp: AdjustAllReduceMulAdd_def Let_def split: option.splits list.splits prod.splits)

lemma Visit_reduce_mul:
  assumes "call_node s m mul_op [a, y] fgm" "prim_node s mul_op kPrimMul"
    and "call_node s a ar_op (x # rest) fga" "prim_node s ar_op kPrimAllReduce"
    and "m_level v = 0"
  shows "m_mul (Visit s v m) = Some mul_op \<and> m_mul_cnode (Visit s v m) = Some m \<and>
         m_z (Visit s v m) = m_z v \<and> m_level (Visit s v m) = 0 \<and>
         (if IsPrimitiveCNode s y kPrimAllReduce
          then m_y (Visit s v m) = m_tmp v
          else m_y (Visit s v m) = Some y \<and> m_x (Visit s v m) = Some x \<and>
               m_all_reduce (Visit s v m) = Some ar_op \<and>
               m_all_reduce_fg (Visit s v m) = fga)"
  using assms
  by (simp add: Visit_unfold Let_def Match_Mul_unfold call_prim call_inputs call_input0
      call_func_graph Visit_level1_def split: option.splits list.splits)

lemma node_at_append:
  "node_at (s\<lparr>nodes := nodes s @ xs\<rparr>) n =
     (if n < length (nodes s) then node_at s n
      else if n < length (nodes s) + length xs then Some (xs ! (n - length (nodes s))) else None)"
  by (auto simp: node_at_def nth_append)

lemma accept_elim:
  assumes "AdjustAllReduceMulAdd v0 s node = (Some r, s', v')"
    and "cnode_inputs s node = Some [addn_op, mt]"
    and "Match Visit kPrimMakeTuple [IsNode, IsNode] s (Reset v0) mt = w"
  shows "IsPrimitiveCNode s node kPrimAddN \<and>
     (\<exists>x y z fg ar_op mul_op mt_op elems.
        cnode_inputs s mt = Some (mt_op # elems) \<and> m_x w = Some x \<and> m_y w = Some y \<and>
        m_z w = Some z \<and> m_all_reduce_fg w = Some fg \<and> m_all_reduce w = Some ar_op \<and>
        m_mul w = Some mul_op)"
proof -
  have a: "IsPrimitiveCNode s node kPrimAddN"
    using assms(1) by (simp add: AdjustAllReduceMulAdd_def Let_def split: if_splits)
  have "m_x w \<noteq> None \<and> m_y w \<noteq> None \<and> m_z w \<noteq> None \<and> m_all_reduce_fg w \<noteq> None \<and>
        m_all_reduce w \<noteq> None \<and> m_mul w \<noteq> None \<and>
        (\<exists>mt_op elems. cnode_inputs s mt = Some (mt_op # elems))"
    using assms a
    by (simp add: AdjustAllReduceMulAdd_def Let_def split: option.splits list.splits)
  with a show ?thesis by auto
qed

lemma Match_MakeTuple_cases:
  "Match Visit kPrimMakeTuple [IsNode, IsNode] s v mt = v \<or>
   (\<exists>e1 e2. Match Visit kPrimMakeTuple [IsNode, IsNode] s v mt = Visit s (Visit s v e1) e2)"
proof (cases "IsPrimitiveCNode s mt kPrimMakeTuple")
  case False
  then show ?thesis by (simp add: Match_MakeTuple_not)
next
  case True
  then obtain f elems where i: "cnode_inputs s mt = Some (f # elems)"
    by (auto simp: IsPrimitiveCNode_def split: option.splits list.splits)
  show ?thesis
  proof (cases "length elems = 2")
    case False
    with i show ?thesis by (simp add: Match_MakeTuple_other)
  next
    case l: True
    then obtain e1 e2 where "elems = [e1, e2]"
      by (cases elems; cases "tl elems"; cases "tl (tl elems)") auto
    with i True show ?thesis by (auto simp: Match_MakeTuple_two)
  qed
qed

lemma matched_mul:
  assumes "Match Visit kPrimMakeTuple [IsNode, IsNode] s (Reset v0) mt = w"
    and "m_y w \<noteq> None" "m_mul_cnode w = Some m"
  shows "reduce_mul s m"
proof -
  have "w = Reset v0 \<or> (\<exists>e1 e2. w = Visit s (Visit s (Reset v0) e1) e2)"
    using Match_MakeTuple_cases [of s "Reset v0" mt] by (simp add: assms(1))
  then show ?thesis
  proof
    assume "w = Reset v0"
    with assms(2) show ?thesis by (simp add: Reset_fields)
  next
    assume "\<exists>e1 e2. w = Visit s (Visit s (Reset v0) e1) e2"
    then obtain e1 e2 where w: "w = Visit s (Visit s (Reset v0) e1) e2" by blast
    have l1: "m_level (Visit s (Reset v0) e1) = 0" by (simp add: Visit_level Reset_fields)
    show ?thesis
    proof (cases "reduce_mul s e2")
      case True
      with Visit_match [OF l1 True] assms(3) show ?thesis by (simp add: w)
    next
      case n2: False
      note v2 = Visit_nomatch [OF l1 n2]
      show ?thesis
      proof (cases "reduce_mul s e1")
        case True
        with Visit_match [of "Reset v0" s e1] v2 assms(3) show ?thesis
          by (simp add: w Reset_fields)
      next
        case False
        with Visit_nomatch [of "Reset v0" s e1] v2 assms(2) show ?thesis
          by (simp add: w Reset_fields)
      qed
    qed
  qed
qed

lemma matched_mul_element:
  assumes "Match Visit kPrimMakeTuple [IsNode, IsNode] s (Reset v0) mt = w"
    and "m_y w \<noteq> None" "m_mul_cnode w = Some m"
  shows "\<exists>f e1 e2. cnode_inputs s mt = Some [f, e1, e2] \<and> (m = e1 \<or> m = e2)"
proof (cases "IsPrimitiveCNode s mt kPrimMakeTuple")
  case False
  then have "w = Reset v0" using assms(1) by (simp add: Match_MakeTuple_not)
  with assms(2) show ?thesis by (simp add: Reset_fields)
next
  case True
  then obtain f elems where i: "cnode_inputs s mt = Some (f # elems)"
    by (auto simp: IsPrimitiveCNode_def split: option.splits list.splits)
  show ?thesis
  proof (cases "length elems = 2")
    case False
    with i have "w = Reset v0" using assms(1) by (simp add: Match_MakeTuple_other)
    with assms(2) show ?thesis by (simp add: Reset_fields)
  next
    case l: True
    then obtain e1 e2 where e: "elems = [e1, e2]"
      by (cases elems; cases "tl elems"; cases "tl (tl elems)") auto
    with i True have w: "w = Visit s (Visit s (Reset v0) e1) e2"
      using assms(1) by (simp add: Match_MakeTuple_two)
    have l1: "m_level (Visit s (Reset v0) e1) = 0" by (simp add: Visit_level Reset_fields)
    have "m = e1 \<or> m = e2"
    proof (cases "reduce_mul s e2")
      case True
      with Visit_match [OF l1 True] assms(3) show ?thesis by (simp add: w)
    next
      case n2: False
      note v2 = Visit_nomatch [OF l1 n2]
      show ?thesis
      proof (cases "reduce_mul s e1")
        case True
        with Visit_match [of "Reset v0" s e1] v2 assms(3) show ?thesis
          by (simp add: w Reset_fields)
      next
        case False
        with Visit_nomatch [of "Reset v0" s e1] v2 assms(2) show ?thesis
          by (simp add: w Reset_fields)
      qed
    qed
    with i e show ?thesis by simp
  qed
qed

lemma reduce_mul_cnode: "reduce_mul s m \<Longrightarrow> IsPrimitiveCNode s m kPrimMul \<and> IsCNode s m"
  by (auto simp: reduce_mul_def IsPrimitiveCNode_def IsCNode_def cnode_inputs_def
      split: option.splits anf_node.splits)

lemma IsPrimitiveCNode_append:
  assumes "c < length (nodes s)" "list_all (\<lambda>nd. \<forall>l. nd \<noteq> ValueNode l) xs"
  shows "IsPrimitiveCNode (s\<lparr>nodes := nodes s @ xs\<rparr>) c p = IsPrimitiveCNode s c p"
proof -
  have "node_at (s\<lparr>nodes := nodes s @ xs\<rparr>) f = Some (ValueNode l) \<longleftrightarrow>
        node_at s f = Some (ValueNode l)" for f l
    using assms(2) by (auto simp: node_at_def list_all_length nth_append)
  then show ?thesis
    using assms(1)
    by (simp add: IsPrimitiveCNode_def cnode_inputs_def node_at_append
        split: option.splits list.splits anf_node.splits)
qed

text \<open>
  The branches of \<open>AdjustAllReduceMulAdd\<close> for a null \<open>all_reduce_\<close> or \<open>mul_\<close> are
  never taken: the pass returns a node exactly when the four bindings are bound.
\<close>

lemma level1_operator:
  "(m_x v \<noteq> None \<longrightarrow> m_all_reduce v \<noteq> None) \<Longrightarrow>
   (m_x (Visit_level1 s v n) \<noteq> None \<longrightarrow> m_all_reduce (Visit_level1 s v n) \<noteq> None)"
  by (simp add: Visit_level1_def split: option.splits list.splits)

lemma fold_level1_operator:
  "(m_x v \<noteq> None \<longrightarrow> m_all_reduce v \<noteq> None) \<Longrightarrow>
   (m_x (fold (\<lambda>a w. Visit_level1 s w a) args v) \<noteq> None \<longrightarrow>
    m_all_reduce (fold (\<lambda>a w. Visit_level1 s w a) args v) \<noteq> None)"
proof (induction args arbitrary: v)
  case Nil
  then show ?case by simp
next
  case (Cons a args)
  from Cons.IH [OF level1_operator [OF Cons.prems]] show ?case by simp
qed

lemma Visit_operators:
  assumes "m_level v = 0"
    and "m_x v \<noteq> None \<longrightarrow> m_all_reduce v \<noteq> None"
    and "m_y v \<noteq> None \<longrightarrow> m_mul v \<noteq> None"
  shows "(m_x (Visit s v e) \<noteq> None \<longrightarrow> m_all_reduce (Visit s v e) \<noteq> None) \<and>
         (m_y (Visit s v e) \<noteq> None \<longrightarrow> m_mul (Visit s v e) \<noteq> None)"
proof (cases "reduce_mul s e")
  case False
  from Visit_nomatch [OF assms(1) False] assms(2,3) show ?thesis by simp
next
  case True
  let ?va = "v\<lparr>m_level := 1, m_is_reduce_match := False\<rparr>"
  have "m_x ?va \<noteq> None \<longrightarrow> m_all_reduce ?va \<noteq> None" using assms(2) by simp
  from fold_level1_operator [OF this]
  have x: "m_x (Visit s v e) \<noteq> None \<longrightarrow> m_all_reduce (Visit s v e) \<noteq> None"
    using assms(2) by (simp add: Visit_unfold [OF assms(1)] Let_def Match_Mul_unfold)
  from True have "cnode_input0 s e \<noteq> None"
    by (auto simp: reduce_mul_def IsPrimitiveCNode_def cnode_input0_def
        split: option.splits list.splits)
  with Visit_match [OF assms(1) True] x show ?thesis by simp
qed

lemma operators_bound:
  assumes "Match Visit kPrimMakeTuple [IsNode, IsNode] s (Reset v0) mt = w"
  shows "(m_x w \<noteq> None \<longrightarrow> m_all_reduce w \<noteq> None \<and> cnode_input0 s mt \<noteq> None) \<and>
         (m_y w \<noteq> None \<longrightarrow> m_mul w \<noteq> None)"
proof (cases "IsPrimitiveCNode s mt kPrimMakeTuple")
  case False
  then have "w = Reset v0" using assms by (simp add: Match_MakeTuple_not)
  then show ?thesis by (simp add: Reset_fields)
next
  case True
  then have i: "cnode_input0 s mt \<noteq> None"
    by (auto simp: IsPrimitiveCNode_def cnode_input0_def split: option.splits list.splits)
  from Match_MakeTuple_cases [of s "Reset v0" mt]
  show ?thesis
  proof
    assume "Match Visit kPrimMakeTuple [IsNode, IsNode] s (Reset v0) mt = Reset v0"
    then show ?thesis using assms by (auto simp: Reset_fields)
  next
    assume "\<exists>e1 e2. Match Visit kPrimMakeTuple [IsNode, IsNode] s (Reset v0) mt =
                     Visit s (Visit s (Reset v0) e1) e2"
    then obtain e1 e2 where w: "w = Visit s (Visit s (Reset v0) e1) e2"
      using assms by auto
    have "(m_x (Visit s (Reset v0) e1) \<noteq> None \<longrightarrow> m_all_reduce (Visit s (Reset v0) e1) \<noteq> None) \<and>
          (m_y (Visit s (Reset v0) e1) \<noteq> None \<longrightarrow> m_mul (Visit s (Reset v0) e1) \<noteq> None)"
      by (rule Visit_operators) (simp_all add: Reset_fields)
    then have "(m_x w \<noteq> None \<longrightarrow> m_all_reduce w \<noteq> None) \<and> (m_y w \<noteq> None \<longrightarrow> m_mul w \<noteq> None)"
      unfolding w by (intro Visit_operators) (simp_all add: Visit_level Reset_fields)
    with i show ?thesis by simp
  qed
qed

lemma accepted_iff_bound:
  assumes "AdjustAllReduceMulAdd v0 s node = (r, s', v')"
  shows "(r = None) =
     (m_x v' = None \<or> m_y v' = None \<or> m_z v' = None \<or> m_all_reduce_fg v' = None)"
proof (cases "IsPrimitiveCNode s node kPrimAddN \<and>
              (\<exists>f mt. cnode_inputs s node = Some [f, mt])")
  case False
  then have "r = None \<and> v' = Reset v0"
    using assms
    by (auto simp: AdjustAllReduceMulAdd_def Let_def split: option.splits list.splits)
  then show ?thesis by (simp add: Reset_fields)
next
  case True
  then obtain f mt where n: "IsPrimitiveCNode s node kPrimAddN" "cnode_inputs s node = Some [f, mt]"
    by blast
  define w where "w = Match Visit kPrimMakeTuple [IsNode, IsNode] s (Reset v0) mt"
  note ob = operators_bound [OF w_def [symmetric]]
  note b = run_bindings [OF n assms w_def [symmetric]]
  show ?thesis
  proof (cases "m_x w = None \<or> m_y w = None \<or> m_z w = None \<or> m_all_reduce_fg w = None")
    case True
    with b have u: "m_x v' = None \<or> m_y v' = None \<or> m_z v' = None \<or> m_all_reduce_fg v' = None"
      by auto
    have "r = None"
      using assms n True
      by (auto simp: AdjustAllReduceMulAdd_def Let_def w_def [symmetric] split: option.splits)
    with u show ?thesis by simp
  next
    case False
    with b have u: "\<not> (m_x v' = None \<or> m_y v' = None \<or> m_z v' = None \<or> m_all_reduce_fg v' = None)"
      by auto
    from False ob have "m_all_reduce w \<noteq> None" "m_mul w \<noteq> None" "cnode_input0 s mt \<noteq> None"
      by auto
    then have "r \<noteq> None"
      using assms n False
      by (auto simp: AdjustAllReduceMulAdd_def Let_def w_def [symmetric] cnode_input0_def
          split: option.splits list.splits prod.splits)
    with u show ?thesis by auto
  qed
qed

text \<open>
  On a node AddN(MakeTuple(Mul(AllReduce(x), y), z)) the four bindings are bound,
  and the pass returns a node, exactly when the AllReduce belongs to a sub-graph,
  \<open>y\<close> is no AllReduce call and \<open>z\<close> is no Mul over an AllReduce call.
\<close>

lemma accepted_iff_shape:
  assumes "call_node s node addn_op [mt] fgn" "prim_node s addn_op kPrimAddN"
    and "call_node s mt mt_op [m, z] fgt" "prim_node s mt_op kPrimMakeTuple"
    and "call_node s m mul_op [a, y] fgm" "prim_node s mul_op kPrimMul"
    and "call_node s a ar_op [x] fga" "prim_node s ar_op kPrimAllReduce"
  shows "(fst (AdjustAllReduceMulAdd v0 s node) \<noteq> None) =
     (fga \<noteq> None \<and> \<not> IsPrimitiveCNode s y kPrimAllReduce \<and> \<not> reduce_mul s z)"
proof -
  define w where "w = Match Visit kPrimMakeTuple [IsNode, IsNode] s (Reset v0) mt"
  obtain r s' v' where run: "AdjustAllReduceMulAdd v0 s node = (r, s', v')"
    by (rule prod_cases3)
  have addn: "IsPrimitiveCNode s node kPrimAddN" "cnode_inputs s node = Some [addn_op, mt]"
    using assms(1,2) by (simp_all add: call_prim call_inputs)
  have mt: "cnode_inputs s mt = Some [mt_op, m, z]" "IsPrimitiveCNode s mt kPrimMakeTuple"
    using assms(3,4) by (simp_all add: call_prim call_inputs)
  have w: "w = Visit s (Visit s (Reset v0) m) z"
    unfolding w_def using mt by (rule Match_MakeTuple_two)
  note b = run_bindings [OF addn run w_def [symmetric]]
  note acc = accepted_iff_bound [OF run]
  let ?w1 = "Visit s (Reset v0) m"
  note w1 = Visit_reduce_mul [OF assms(5-8), of "Reset v0", simplified Reset_fields, simplified]
  have l1: "m_level ?w1 = 0" using w1 by simp
  show ?thesis
  proof (cases "reduce_mul s z")
    case True
    then have "m_z w = None"
      using w1 by (simp add: w Visit_match Reset_fields)
    with b acc True show ?thesis by (simp add: run)
  next
    case nz: False
    note w2 = Visit_nomatch [OF l1 nz]
    show ?thesis
    proof (cases "IsPrimitiveCNode s y kPrimAllReduce")
      case True
      then have "m_y w = None"
        using w1 w2 by (simp add: w Reset_fields)
      with b acc True show ?thesis by (simp add: run)
    next
      case ny: False
      have "m_x w = Some x" "m_y w = Some y" "m_z w = Some z" "m_all_reduce_fg w = fga"
        using w1 w2 ny by (simp_all add: w)
      with b acc nz ny show ?thesis by (auto simp: run)
    qed
  qed
qed

subsection \<open>Constant matchers and the rule list\<close>

lemma TryCapture_const:
  "TryCapture s (PConstant c) n b =
     (if matches_const s c n then Some (b\<lparr>captured_const := (captured_const b)(c \<mapsto> n)\<rparr>)
      else None)"
  by (simp add: matches_const_def split: option.splits anf_node.splits)

lemma matches_any: "matches_const s P_const n = IsVNode s n" "matches_const s P_const_2 n = IsVNode s n"
  by (simp_all add: matches_const_def IsVNode_def const_matches_def split: option.splits anf_node.splits)

lemma zero_scalar_is_zero: "matches_const s P_zero_scalar n \<Longrightarrow> matches_const s P_zero n"
  by (auto simp: matches_const_def const_matches_def IsTensorScalarConstant_def
      IsTensorConstant_def split: option.splits anf_node.splits literal.splits)

lemma zero_scalar_not_one: "matches_const s P_zero_scalar n \<Longrightarrow> \<not> matches_const s P_one_scalar n"
  by (auto simp: matches_const_def const_matches_def IsTensorScalarConstant_def
      split: option.splits anf_node.splits literal.splits)

lemmas rule_defs =
  add_by_zero_def add_by_zero_scalar_def scalar_add_by_zero_left_def scalar_add_by_zero_right_def
  multiply_by_one_def scalar_mul_by_one_left_def scalar_mul_by_one_right_def
  scalar_mul_by_zero_left_def scalar_mul_by_zero_right_def prim_eliminate_def
  constant_duplicate_mul_def opt_update_zero_tensor_def power_one_eliminate_def
  MATCH_REPLACE_def MATCH_REPLACE_IF_def MATCH_REPLACE_LAMBDA_def

lemmas capture_simps =
  call_prim call_inputs prim_node_eq TryCapture_const no_bindings_def GetNode_def
  WithValueOf_def CheckFunc_def returned_def

lemma call_not_value: "call_node s n f args fg \<Longrightarrow> \<not> IsVNode s n \<and> \<not> matches_const s c n"
  by (simp add: call_node_def IsVNode_def matches_const_def)

lemma value_IsVNode: "node_at s n = Some (ValueNode v) \<Longrightarrow> IsVNode s n"
  by (simp add: IsVNode_def)

lemmas sweep_simps = ArithmeticSimplify_def rule_defs capture_simps



text \<open>On a candidate that belongs to a sub-graph the Momentum rule does fire.\<close>

lemma momentum_attached:
  assumes "call_node s n f [g, y, z, xs] (Some fg)" "prim_node s f kPrimMomentum"
    and "call_node s g fz [x] fgz" "prim_node s fz kPrimZerosLike"
  shows "ArithmeticSimplify cm fl ft s n =
     Inr (Some (Suc (length (nodes s))),
          s\<lparr>nodes := nodes s @ [ValueNode (PrimVal kPrimMakeTuple),
                                 CNode [length (nodes s), z, y] (Some fg)]\<rparr>)"
  using assms
  by (simp add: sweep_simps GetNode_prim2_def NewValueNode_def NewCNode_def
      FuncGraph_NewCNode_def call_func_graph del: TryCapture.simps(2))

section \<open>The claims about AdjustAllReduceMulAdd\<close>

text \<open>
  C1.  For a node AddN(MakeTuple(Mul(AllReduce(x), y), z)) all of whose parts the
  pass binds, the pass returns a new node Mul(AllReduce(AddN(MakeTuple(z', x))), y).
  The parts are bound on these inputs: the AllReduce belongs to a sub-graph \<open>fg\<close>
  (which binds \<open>all_reduce_fg_\<close>), \<open>y\<close> is no AllReduce call (which binds \<open>y_\<close>) and
  \<open>z\<close> is no Mul over an AllReduce call (which binds \<open>z_\<close>).  The four calls are
  new nodes (their indices \<open>k\<close> to \<open>k + 3\<close> lie past the nodes of the graph), all of
  them in the sub-graph \<open>fg\<close> of the matched AllReduce, and their operators are the
  operator nodes of the original AddN, MakeTuple, AllReduce and Mul.  \<open>z'\<close> is \<open>z\<close>
  itself, or, when \<open>z\<close> is a call of another sub-graph, the new call with the
  inputs of \<open>z\<close> built in \<open>fg\<close> first.
\<close>

theorem reassociation_result:
  assumes "call_node s node addn_op [mt] fgn" "prim_node s addn_op kPrimAddN"
    and "call_node s mt mt_op [m, z] fgt" "prim_node s mt_op kPrimMakeTuple"
    and "call_node s m mul_op [a, y] fgm" "prim_node s mul_op kPrimMul"
    and "call_node s a ar_op [x] (Some fg)" "prim_node s ar_op kPrimAllReduce"
    and ny: "\<not> IsPrimitiveCNode s y kPrimAllReduce"
    and nz: "\<not> reduce_mul s z"
    and wf: "users_recorded s"
    and rehome: "rehome = (IsCNode s z \<and> func_graph s z \<noteq> Some fg)"
    and k: "k = (if rehome then Suc (length (nodes s)) else length (nodes s))"
    and z': "z' = (if rehome then length (nodes s) else z)"
  shows "fst (AdjustAllReduceMulAdd v0 s node) = Some (k + 3) \<and>
     node_at (fst (snd (AdjustAllReduceMulAdd v0 s node))) (k + 3)
       = Some (CNode [mul_op, k + 2, y] (Some fg)) \<and>
     node_at (fst (snd (AdjustAllReduceMulAdd v0 s node))) (k + 2)
       = Some (CNode [ar_op, k + 1] (Some fg)) \<and>
     node_at (fst (snd (AdjustAllReduceMulAdd v0 s node))) (k + 1)
       = Some (CNode [addn_op, k] (Some fg)) \<and>
     node_at (fst (snd (AdjustAllReduceMulAdd v0 s node))) k
       = Some (CNode [mt_op, z', x] (Some fg)) \<and>
     (if rehome
      then cnode_inputs (fst (snd (AdjustAllReduceMulAdd v0 s node))) z' = cnode_inputs s z \<and>
           func_graph (fst (snd (AdjustAllReduceMulAdd v0 s node))) z' = Some fg
      else z' = z)"
proof -
  define w where "w = Match Visit kPrimMakeTuple [IsNode, IsNode] s (Reset v0) mt"
  have addn: "IsPrimitiveCNode s node kPrimAddN" "cnode_inputs s node = Some [addn_op, mt]"
    using assms(1,2) by (simp_all add: call_prim call_inputs)
  have mt: "cnode_inputs s mt = Some [mt_op, m, z]" "IsPrimitiveCNode s mt kPrimMakeTuple"
    using assms(3,4) by (simp_all add: call_prim call_inputs)
  have w: "w = Visit s (Visit s (Reset v0) m) z"
    unfolding w_def using mt by (rule Match_MakeTuple_two)
  let ?w1 = "Visit s (Reset v0) m"
  note w1 = Visit_reduce_mul [OF assms(5-8), of "Reset v0", simplified Reset_fields, simplified]
  have l1: "m_level ?w1 = 0" using w1 by simp
  note w2 = Visit_nomatch [OF l1 nz]
  have fields: "m_x w = Some x" "m_y w = Some y" "m_z w = Some z" "m_all_reduce_fg w = Some fg"
    "m_all_reduce w = Some ar_op" "m_mul w = Some mul_op"
    using w1 w2 ny by (simp_all add: w)
  define pre where "pre = (case cnode_inputs s z of
                  Some zin \<Rightarrow> if Some fg \<noteq> func_graph s z then [CNode zin (Some fg)] else []
                | None \<Rightarrow> [])"
  have pre: "pre = (if rehome then [CNode (the (cnode_inputs s z)) (Some fg)] else [])"
    by (auto simp: pre_def rehome IsCNode_def cnode_inputs_def
        split: option.splits anf_node.splits)
  have zk: "z' = (if pre = [] then z else length (nodes s))" "k = length (nodes s) + length pre"
    by (simp_all add: pre z' k)
  let ?s5 = "s\<lparr>nodes := nodes s @ pre @
             [CNode [mt_op, z', x] (Some fg), CNode [addn_op, k] (Some fg),
              CNode [ar_op, k + 1] (Some fg), CNode [mul_op, k + 2, y] (Some fg)]\<rparr>"
  have form: "AdjustAllReduceMulAdd v0 s node =
     (Some (k + 3), ProcessDependEdge (w\<lparr>m_z := Some z'\<rparr>) ?s5 fg mt (k + 2), w\<lparr>m_z := Some z'\<rparr>)"
    using fields
    by (intro accept_form [OF addn mt(1) w_def [symmetric] _ _ _ _ _ _ pre_def zk]) simp_all
  have new: "node_at (fst (snd (AdjustAllReduceMulAdd v0 s node))) n = node_at ?s5 n"
    if "length (nodes s) \<le> n" for n
    unfolding form fst_conv snd_conv using wf _ that by (rule ProcessDependEdge_new) simp
  have zin: "cnode_inputs s z = Some (the (cnode_inputs s z))" if rehome
    using that by (auto simp: rehome IsCNode_def cnode_inputs_def split: option.splits anf_node.splits)
  have r: "fst (AdjustAllReduceMulAdd v0 s node) = Some (k + 3)"
    by (simp add: form)
  show ?thesis
  proof (cases rehome)
    case True
    then have "k = Suc (length (nodes s))" "z' = length (nodes s)" by (simp_all add: k z')
    then show ?thesis
      using True zin [OF True]
      by (simp add: r new node_at_append pre cnode_inputs_def func_graph_def)
  next
    case False
    then have "k = length (nodes s)" "z' = z" by (simp_all add: k z')
    then show ?thesis
      using False by (simp add: r new node_at_append pre)
  qed
qed

theorem reassociation_result_witness:
  "fst (AdjustAllReduceMulAdd v_init g_reduce 10) = Some (14 + 3) \<and>
   node_at (fst (snd (AdjustAllReduceMulAdd v_init g_reduce 10))) (14 + 3)
     = Some (CNode [2, 14 + 2, 5] (Some 0)) \<and>
   node_at (fst (snd (AdjustAllReduceMulAdd v_init g_reduce 10))) (14 + 2)
     = Some (CNode [3, 14 + 1] (Some 0)) \<and>
   node_at (fst (snd (AdjustAllReduceMulAdd v_init g_reduce 10))) (14 + 1)
     = Some (CNode [0, 14] (Some 0)) \<and>
   node_at (fst (snd (AdjustAllReduceMulAdd v_init g_reduce 10))) 14
     = Some (CNode [1, 13, 4] (Some 0)) \<and>
   cnode_inputs (fst (snd (AdjustAllReduceMulAdd v_init g_reduce 10))) 13
     = cnode_inputs g_reduce 6 \<and>
   func_graph (fst (snd (AdjustAllReduceMulAdd v_init g_reduce 10))) 13 = Some 0"
proof -
  have shape: "call_node g_reduce 10 0 [9] (Some 0)" "prim_node g_reduce 0 kPrimAddN"
    "call_node g_reduce 9 1 [8, 6] (Some 0)" "prim_node g_reduce 1 kPrimMakeTuple"
    "call_node g_reduce 8 2 [7, 5] (Some 0)" "prim_node g_reduce 2 kPrimMul"
    "call_node g_reduce 7 3 [4] (Some 0)" "prim_node g_reduce 3 kPrimAllReduce"
    by code_simp+
  have bound: "\<not> IsPrimitiveCNode g_reduce 5 kPrimAllReduce" "\<not> reduce_mul g_reduce 6"
    by code_simp+
  have wf: "users_recorded g_reduce" by code_simp
  have rehome: "True = (IsCNode g_reduce 6 \<and> func_graph g_reduce 6 \<noteq> Some 0)" by code_simp
  have k: "14 = (if True then Suc (length (nodes g_reduce)) else length (nodes g_reduce))"
    by code_simp
  have z': "13 = (if True then length (nodes g_reduce) else 6)" by code_simp
  from reassociation_result [OF shape bound wf rehome k z', of v_init]
  show ?thesis by simp
qed

text \<open>
  C2, as amended.  A candidate whose MakeTuple holds more than two elements, and a
  candidate none of whose MakeTuple elements is a Mul call with an AllReduce call
  (with an operand) among its operands, gets no rewrite: the pass returns nothing
  and the graph is the same graph.  The AllReduce call may stand at any position
  among the operands of the Mul.
\<close>

theorem no_reduce_no_rewrite:
  assumes "cnode_inputs s node = Some [addn_op, mt]"
    and "cnode_inputs s mt = Some (mt_op # elems)"
    and "2 < length elems \<or> list_all (\<lambda>e. \<not> reduce_mul s e) elems"
  shows "fst (AdjustAllReduceMulAdd v0 s node) = None \<and>
         fst (snd (AdjustAllReduceMulAdd v0 s node)) = s"
proof (cases "length elems = 2")
  case False
  then have "Match Visit kPrimMakeTuple [IsNode, IsNode] s (Reset v0) mt = Reset v0"
    using assms(2) by (simp add: Match_MakeTuple_other)
  then show ?thesis
    using assms(1) by (intro no_x_no_rewrite) (simp_all add: Reset_fields)
next
  case True
  then obtain e1 e2 where e: "elems = [e1, e2]"
    by (cases elems; cases "tl elems"; cases "tl (tl elems)") auto
  with assms(3) have n: "\<not> reduce_mul s e1" "\<not> reduce_mul s e2" by simp_all
  have "m_x (Match Visit kPrimMakeTuple [IsNode, IsNode] s (Reset v0) mt) = None"
  proof (cases "IsPrimitiveCNode s mt kPrimMakeTuple")
    case True
    then show ?thesis
      using assms(2) n by (simp add: e Match_MakeTuple_two Visit_nomatch Visit_level Reset_fields)
  next
    case False
    then show ?thesis by (simp add: Match_MakeTuple_not Reset_fields)
  qed
  then show ?thesis
    using assms(1) by (intro no_x_no_rewrite) simp_all
qed

theorem no_reduce_no_rewrite_witness:
  "fst (AdjustAllReduceMulAdd v_init g_three 10) = None \<and>
   fst (snd (AdjustAllReduceMulAdd v_init g_three 10)) = g_three \<and>
   fst (AdjustAllReduceMulAdd v_init g_plain 8) = None \<and>
   fst (snd (AdjustAllReduceMulAdd v_init g_plain 8)) = g_plain"
proof -
  have three: "cnode_inputs g_three 10 = Some [0, 9]" "cnode_inputs g_three 9 = Some (1 # [8, 6, 5])"
    "2 < length [8, 6, 5 :: nat] \<or> list_all (\<lambda>e. \<not> reduce_mul g_three e) [8, 6, 5]"
    by code_simp+
  have plain: "cnode_inputs g_plain 8 = Some [0, 7]" "cnode_inputs g_plain 7 = Some (1 # [6, 5])"
    "2 < length [6, 5 :: nat] \<or> list_all (\<lambda>e. \<not> reduce_mul g_plain e) [6, 5]"
    by code_simp+
  from no_reduce_no_rewrite [OF three, of v_init] no_reduce_no_rewrite [OF plain, of v_init]
  show ?thesis by simp
qed

text \<open>
  The claim as stated fails on \<open>g_swapped\<close>: the first operand of the Mul element
  (node 8) is the parameter y (node 5), its AllReduce is the second operand, and
  the pass rewrites the candidate all the same.
\<close>

theorem second_operand_reduce_rewritten:
  "cnode_inputs g_swapped 8 = Some [2, 5, 7] \<and>
   \<not> IsPrimitiveCNode g_swapped 5 kPrimAllReduce \<and>
   IsPrimitiveCNode g_swapped 7 kPrimAllReduce \<and>
   fst (AdjustAllReduceMulAdd v_init g_swapped 10) = Some 14 \<and>
   node_at (fst (snd (AdjustAllReduceMulAdd v_init g_swapped 10))) 14
     = Some (CNode [2, 13, 5] (Some 0))"
  by code_simp

text \<open>
  C4.  When the pass returns a replacement, the matched Mul \<open>m\<close> (the pass's
  \<open>mul_cnode_\<close>) is one of the two elements of the MakeTuple \<open>mt\<close> under the
  AddN.  Take any recorded user \<open>(c, i)\<close> of \<open>m\<close>.  If \<open>c\<close> is a MakeTuple call
  other than \<open>mt\<close>, then after the pass operand \<open>i\<close> of \<open>c\<close> is the new AllReduce
  node (the first operand of the returned Mul, a node that did not exist before),
  \<open>c\<close> has as many operands as before and the same sub-graph, and the user map
  records \<open>(c, i)\<close> among the users of the new AllReduce node and no longer among
  those of \<open>m\<close>.  If \<open>c\<close> is no MakeTuple call, or is \<open>mt\<close> itself, the node \<open>c\<close> is as
  it was and \<open>(c, i)\<close> is still recorded among the users of \<open>m\<close>.
\<close>

theorem depend_edge_repair:
  assumes run: "AdjustAllReduceMulAdd v0 s node = (Some r, s', v')"
    and node: "cnode_inputs s node = Some [addn_op, mt]"
    and m: "m_mul_cnode v' = Some m"
    and us: "users_of s m = Some us"
    and wf: "users_recorded s"
    and ci: "(c, i) \<in> set us"
  shows "\<exists>mul_op new_all_reduce y.
     cnode_inputs s' r = Some [mul_op, new_all_reduce, y] \<and>
     length (nodes s) \<le> new_all_reduce \<and>
     IsPrimitiveCNode s m kPrimMul \<and>
     (\<exists>f e1 e2. cnode_inputs s mt = Some [f, e1, e2] \<and> (m = e1 \<or> m = e2)) \<and>
     (if c \<noteq> mt \<and> IsPrimitiveCNode s c kPrimMakeTuple
      then (\<exists>inputs inputs'.
              cnode_inputs s c = Some inputs \<and> cnode_inputs s' c = Some inputs' \<and>
              length inputs' = length inputs \<and> i < length inputs' \<and>
              inputs' ! i = new_all_reduce \<and> func_graph s' c = func_graph s c) \<and>
           is_user s' new_all_reduce (c, i) \<and> \<not> is_user s' m (c, i)
      else node_at s' c = node_at s c \<and> is_user s' m (c, i))"
proof -
  define w where "w = Match Visit kPrimMakeTuple [IsNode, IsNode] s (Reset v0) mt"
  from accept_elim [OF run node w_def [symmetric]]
  obtain x y z fg ar_op mul_op mt_op elems where
    addn: "IsPrimitiveCNode s node kPrimAddN" and mt: "cnode_inputs s mt = Some (mt_op # elems)"
    and f: "m_x w = Some x" "m_y w = Some y" "m_z w = Some z" "m_all_reduce_fg w = Some fg"
      "m_all_reduce w = Some ar_op" "m_mul w = Some mul_op"
    by blast
  define pre where "pre = (case cnode_inputs s z of
                  Some zin \<Rightarrow> if Some fg \<noteq> func_graph s z then [CNode zin (Some fg)] else []
                | None \<Rightarrow> [])"
  define z' where "z' = (if pre = [] then z else length (nodes s))"
  define k where "k = length (nodes s) + length pre"
  define news where "news = pre @
             [CNode [mt_op, z', x] (Some fg), CNode [addn_op, k] (Some fg),
              CNode [ar_op, k + 1] (Some fg), CNode [mul_op, k + 2, y] (Some fg)]"
  let ?s5 = "s\<lparr>nodes := nodes s @ news\<rparr>"
  have form: "AdjustAllReduceMulAdd v0 s node =
     (Some (k + 3), ProcessDependEdge (w\<lparr>m_z := Some z'\<rparr>) ?s5 fg mt (k + 2), w\<lparr>m_z := Some z'\<rparr>)"
    unfolding news_def
    by (rule accept_form [OF addn node mt w_def [symmetric] f pre_def z'_def k_def])
  have r: "r = k + 3" and s': "s' = ProcessDependEdge (w\<lparr>m_z := Some z'\<rparr>) ?s5 fg mt (k + 2)"
    and v': "v' = w\<lparr>m_z := Some z'\<rparr>"
    using run unfolding form by blast+
  have mw: "m_mul_cnode w = Some m" using m by (simp add: v')
  have rm: "reduce_mul s m"
    using w_def [symmetric] _ mw by (rule matched_mul) (simp add: f)
  note mc = reduce_mul_cnode [OF rm]
  have me: "\<exists>f e1 e2. cnode_inputs s mt = Some [f, e1, e2] \<and> (m = e1 \<or> m = e2)"
    using w_def [symmetric] _ mw by (rule matched_mul_element) (simp add: f)
  have news_calls: "list_all (\<lambda>nd. \<forall>l. nd \<noteq> ValueNode l) news"
    by (simp add: news_def pre_def split: option.splits)
  have len: "length (nodes s) \<le> k" by (simp add: k_def)
  have new: "node_at s' n = node_at ?s5 n" if "length (nodes s) \<le> n" for n
    unfolding s' using wf _ that by (rule ProcessDependEdge_new) simp
  have "node_at ?s5 (k + 3) = Some (CNode [mul_op, k + 2, y] (Some fg))"
    by (simp add: node_at_def news_def nth_append k_def)
  then have ret: "cnode_inputs s' r = Some [mul_op, k + 2, y]"
    using len by (simp add: cnode_inputs_def new r)
  note rec = users_recorded_entry [OF wf us]
  have old: "n < length (nodes s)" if "(n, j) \<in> set us" for n j
    using rec that cnode_inputs_valid by (auto simp: list_all_iff split: option.splits)
  have pos: "list_all (\<lambda>(c, i). IsPrimitiveCNode ?s5 c kPrimMakeTuple \<longrightarrow> 0 < i) us"
  proof -
    have "0 < j" if "(n, j) \<in> set us" "IsPrimitiveCNode ?s5 n kPrimMakeTuple" for n j
    proof (rule ccontr)
      assume "\<not> 0 < j"
      then have j: "j = 0" by simp
      from rec that(1) obtain inputs where
        i: "cnode_inputs s n = Some inputs" "j < length inputs" "inputs ! j = m"
        by (auto simp: list_all_iff split: option.splits)
      from that(2) have "IsPrimitiveCNode s n kPrimMakeTuple"
        using old [OF that(1)] news_calls by (simp add: IsPrimitiveCNode_append)
      with i j have "IsVNode s m"
        by (cases inputs) (auto simp: IsPrimitiveCNode_def IsVNode_def)
      with mc show False
        by (auto simp: IsVNode_def IsCNode_def split: option.splits anf_node.splits)
    qed
    then show ?thesis by (auto simp: list_all_iff)
  qed
  have s'_loop: "s' = ProcessDependEdge_users mt (k + 2) us ?s5"
    using mw us by (simp add: s' ProcessDependEdge_def users_of_def)
  note nodes' = users_loop_nodes [OF pos, of mt "k + 2", folded s'_loop]
  have c_old: "c < length (nodes s)" using old [OF ci] .
  from rec ci obtain inputs where
    i: "cnode_inputs s c = Some inputs" "i < length inputs" "inputs ! i = m"
    by (auto simp: list_all_iff split: option.splits)
  then obtain fgc where nc: "node_at s c = Some (CNode inputs fgc)"
    by (auto simp: cnode_inputs_def split: option.splits anf_node.splits)
  have prim_c: "IsPrimitiveCNode ?s5 c kPrimMakeTuple = IsPrimitiveCNode s c kPrimMakeTuple"
    using c_old news_calls by (rule IsPrimitiveCNode_append)
  have edges: "if c \<noteq> mt \<and> IsPrimitiveCNode s c kPrimMakeTuple
      then \<exists>inputs inputs'.
             cnode_inputs s c = Some inputs \<and> cnode_inputs s' c = Some inputs' \<and>
             length inputs' = length inputs \<and> i < length inputs' \<and>
             inputs' ! i = k + 2 \<and> func_graph s' c = func_graph s c
      else node_at s' c = node_at s c"
    using c_old nc i(2) ci
    by (simp add: nodes' [of c] prim_c node_at_append cnode_inputs_def func_graph_def
        repoint_length repoint_sets)
  have users5: "is_user ?s5 n e = is_user s n e" for n e
    by (simp add: is_user_def users_of_def)
  have m_old: "m \<noteq> k + 2"
    using mc len by (auto simp: IsCNode_def node_at_def split: if_splits)
  have i5: "cnode_inputs ?s5 c = Some inputs"
    using c_old i(1) by (simp add: cnode_inputs_def node_at_append)
  have recorded: "is_user s m (c, i)"
    using us ci by (simp add: is_user_def)
  have map: "if c \<noteq> mt \<and> IsPrimitiveCNode s c kPrimMakeTuple
      then is_user s' (k + 2) (c, i) \<and> \<not> is_user s' m (c, i)
      else is_user s' m (c, i)"
  proof (cases "c \<noteq> mt \<and> IsPrimitiveCNode s c kPrimMakeTuple")
    case True
    then have "c \<noteq> mt" "IsPrimitiveCNode ?s5 c kPrimMakeTuple" by (simp_all add: prim_c)
    from users_loop_repointed [OF pos this m_old i5 i(2)] i(3) ci True
    show ?thesis by (simp add: s'_loop)
  next
    case False
    then have "c = mt \<or> \<not> IsPrimitiveCNode ?s5 c kPrimMakeTuple" by (simp add: prim_c)
    from users_loop_kept [OF pos this, where v = "k + 2" and n = m and i = i] recorded False
    show ?thesis by (simp add: s'_loop users5)
  qed
  from edges map have "if c \<noteq> mt \<and> IsPrimitiveCNode s c kPrimMakeTuple
      then (\<exists>inputs inputs'.
              cnode_inputs s c = Some inputs \<and> cnode_inputs s' c = Some inputs' \<and>
              length inputs' = length inputs \<and> i < length inputs' \<and>
              inputs' ! i = k + 2 \<and> func_graph s' c = func_graph s c) \<and>
           is_user s' (k + 2) (c, i) \<and> \<not> is_user s' m (c, i)
      else node_at s' c = node_at s c \<and> is_user s' m (c, i)"
    by (cases "c \<noteq> mt \<and> IsPrimitiveCNode s c kPrimMakeTuple") simp_all
  with ret len mc me show ?thesis
    by (intro exI [of _ mul_op] exI [of _ "k + 2"] exI [of _ y]) simp
qed

theorem depend_edge_repair_witness:
  "\<exists>mul_op new_all_reduce y.
     cnode_inputs (fst (snd (AdjustAllReduceMulAdd v_init g_reduce 10))) 17
       = Some [mul_op, new_all_reduce, y] \<and>
     length (nodes g_reduce) \<le> new_all_reduce \<and>
     IsPrimitiveCNode g_reduce 8 kPrimMul \<and>
     (\<exists>f e1 e2. cnode_inputs g_reduce 9 = Some [f, e1, e2] \<and> (8 = e1 \<or> 8 = e2)) \<and>
     (\<exists>inputs inputs'.
        cnode_inputs g_reduce 11 = Some inputs \<and>
        cnode_inputs (fst (snd (AdjustAllReduceMulAdd v_init g_reduce 10))) 11 = Some inputs' \<and>
        length inputs' = length inputs \<and> 1 < length inputs' \<and>
        inputs' ! 1 = new_all_reduce \<and>
        func_graph (fst (snd (AdjustAllReduceMulAdd v_init g_reduce 10))) 11
          = func_graph g_reduce 11) \<and>
     is_user (fst (snd (AdjustAllReduceMulAdd v_init g_reduce 10))) new_all_reduce (11, 1) \<and>
     \<not> is_user (fst (snd (AdjustAllReduceMulAdd v_init g_reduce 10))) 8 (11, 1)"
proof -
  have "fst (AdjustAllReduceMulAdd v_init g_reduce 10) = Some 17" by code_simp
  then obtain s' v' where run: "AdjustAllReduceMulAdd v_init g_reduce 10 = (Some 17, s', v')"
    by (cases "AdjustAllReduceMulAdd v_init g_reduce 10") auto
  have "m_mul_cnode (snd (snd (AdjustAllReduceMulAdd v_init g_reduce 10))) = Some 8"
    by code_simp
  then have m: "m_mul_cnode v' = Some 8" by (simp add: run)
  have node: "cnode_inputs g_reduce 10 = Some [0, 9]" by code_simp
  have us: "users_of g_reduce 8 = Some [(9, 1), (11, 1), (12, 1)]" by code_simp
  have wf: "users_recorded g_reduce" by code_simp
  have ci: "(11, 1) \<in> set [(9, 1), (11, 1), (12, 1 :: nat)]" by simp
  have c: "(11 :: nat) \<noteq> 9 \<and> IsPrimitiveCNode g_reduce 11 kPrimMakeTuple" by code_simp
  from depend_edge_repair [OF run node m us wf ci] c run
  show ?thesis by simp
qed



text \<open>
  C10.  If both elements of the MakeTuple are of the shape Mul(AllReduce(_), _),
  the pass never binds \<open>z_\<close>, returns nothing and leaves the graph as it was; the
  second element has overwritten \<open>mul_cnode_\<close> and \<open>mul_\<close>.
\<close>

theorem both_reduce_mul_no_rewrite:
  assumes "call_node s node addn_op [mt] fgn" "prim_node s addn_op kPrimAddN"
    and "call_node s mt mt_op [e1, e2] fgt" "prim_node s mt_op kPrimMakeTuple"
    and "call_node s e1 mul1 [a1, y1] fg1" "prim_node s mul1 kPrimMul"
    and "call_node s a1 ar1 (x1 # r1) fga1" "prim_node s ar1 kPrimAllReduce"
    and "call_node s e2 mul2 [a2, y2] fg2" "prim_node s mul2 kPrimMul"
    and "call_node s a2 ar2 (x2 # r2) fga2" "prim_node s ar2 kPrimAllReduce"
  shows "fst (AdjustAllReduceMulAdd v0 s node) = None \<and>
         fst (snd (AdjustAllReduceMulAdd v0 s node)) = s \<and>
         m_z (snd (snd (AdjustAllReduceMulAdd v0 s node))) = None \<and>
         m_mul_cnode (snd (snd (AdjustAllReduceMulAdd v0 s node))) = Some e2 \<and>
         m_mul (snd (snd (AdjustAllReduceMulAdd v0 s node))) = Some mul2"
proof -
  have r1: "reduce_mul s e1"
    using assms(5-8) by (simp add: reduce_mul_def reduce_call_def call_prim call_inputs)
  have r2: "reduce_mul s e2"
    using assms(9-12) by (simp add: reduce_mul_def reduce_call_def call_prim call_inputs)
  let ?w = "Match Visit kPrimMakeTuple [IsNode, IsNode] s (Reset v0) mt"
  have w: "?w = Visit s (Visit s (Reset v0) e1) e2"
    using assms(3,4) by (simp add: Match_MakeTuple_two call_inputs call_prim)
  have z: "m_z ?w = None"
    using r1 r2 by (simp add: w Visit_match Visit_level Reset_fields)
  have "m_mul_cnode ?w = Some e2 \<and> m_mul ?w = Some mul2"
    using r2 assms(9) by (simp add: w Visit_match Visit_level Reset_fields call_input0)
  moreover have "snd (snd (AdjustAllReduceMulAdd v0 s node)) = ?w"
    using z assms(1,2) by (intro no_z_state) (simp_all add: call_inputs call_prim)
  moreover have "fst (AdjustAllReduceMulAdd v0 s node) = None \<and>
         fst (snd (AdjustAllReduceMulAdd v0 s node)) = s \<and>
         m_z (snd (snd (AdjustAllReduceMulAdd v0 s node))) = None"
    using z assms(1) by (intro no_z_no_rewrite) (simp_all add: call_inputs)
  ultimately show ?thesis by simp
qed

theorem both_reduce_mul_no_rewrite_witness:
  "fst (AdjustAllReduceMulAdd v_init g_both 11) = None \<and>
   fst (snd (AdjustAllReduceMulAdd v_init g_both 11)) = g_both \<and>
   m_z (snd (snd (AdjustAllReduceMulAdd v_init g_both 11))) = None \<and>
   m_mul_cnode (snd (snd (AdjustAllReduceMulAdd v_init g_both 11))) = Some 9 \<and>
   m_mul (snd (snd (AdjustAllReduceMulAdd v_init g_both 11))) = Some 2"
proof -
  have shape: "call_node g_both 11 0 [10] (Some 0)" "prim_node g_both 0 kPrimAddN"
    "call_node g_both 10 1 [7, 9] (Some 0)" "prim_node g_both 1 kPrimMakeTuple"
    "call_node g_both 7 2 [6, 5] (Some 0)" "prim_node g_both 2 kPrimMul"
    "call_node g_both 6 3 (4 # []) (Some 0)" "prim_node g_both 3 kPrimAllReduce"
    "call_node g_both 9 2 [8, 4] (Some 0)" "prim_node g_both 2 kPrimMul"
    "call_node g_both 8 3 (5 # []) (Some 0)" "prim_node g_both 3 kPrimAllReduce"
    by code_simp+
  from both_reduce_mul_no_rewrite [OF shape, of v_init] show ?thesis .
qed

section \<open>The claims about ArithmeticSimplify\<close>

text \<open>
  C3, as amended.  On a candidate that belongs to no sub-graph the Momentum and
  pow rules are never tried: sweep 1 returns nothing, and leaves the graph as it
  is, on a detached Momentum(ZerosLike(x), y, z, xs) call, on a detached pow(x, 1)
  call, and on every detached node on which none of the rules before the guard
  fires.  The rules before the guard are tried on a detached candidate like on
  any other: when one of them fires, what it produces is what sweep 1 returns.
\<close>

theorem detached_guard:
  assumes "func_graph s n = None"
  shows
   "(call_node s n f1 [g, y, z, xs] fg1 \<and> prim_node s f1 kPrimMomentum \<and>
       call_node s g fz [x1] fgz \<and> prim_node s fz kPrimZerosLike
       \<longrightarrow> ArithmeticSimplify cm fl ft s n = Inr (None, s)) \<and>
    (call_node s n f2 [x2, c] fg2 \<and> prim_node s f2 kPrimPow \<and> matches_const s P_one_scalar c
       \<longrightarrow> ArithmeticSimplify cm fl ft s n = Inr (None, s)) \<and>
    (first_match
       [add_by_zero cm, add_by_zero_scalar cm, scalar_add_by_zero_left,
        scalar_add_by_zero_right, multiply_by_one cm ft, scalar_mul_by_one_left,
        scalar_mul_by_one_right, scalar_mul_by_zero_left, scalar_mul_by_zero_right,
        prim_eliminate, constant_duplicate_mul cm fl] s n = None
       \<longrightarrow> ArithmeticSimplify cm fl ft s n = Inr (None, s)) \<and>
    (first_match
       [add_by_zero cm, add_by_zero_scalar cm, scalar_add_by_zero_left,
        scalar_add_by_zero_right, multiply_by_one cm ft, scalar_mul_by_one_left,
        scalar_mul_by_one_right, scalar_mul_by_zero_left, scalar_mul_by_zero_right,
        prim_eliminate, constant_duplicate_mul cm fl] s n = Some res
       \<longrightarrow> ArithmeticSimplify cm fl ft s n = res)"
  using assms
  apply (intro conjI impI; (elim conjE)?)
  subgoal by (simp add: sweep_simps del: TryCapture.simps(2))
  subgoal by (simp add: sweep_simps del: TryCapture.simps(2))
  subgoal by (simp add: ArithmeticSimplify_def)
  subgoal by (simp add: ArithmeticSimplify_def)
  done

theorem detached_guard_witness:
  "ArithmeticSimplify True fold_none fill_none g_momentum 9 = Inr (None, g_momentum) \<and>
   ArithmeticSimplify True fold_none fill_none g_momentum 10 = Inr (None, g_momentum)"
proof -
  have d: "func_graph g_momentum 9 = None" "func_graph g_momentum 10 = None" by code_simp+
  have h: "call_node g_momentum 9 0 [8, 5, 6, 7] None \<and> prim_node g_momentum 0 kPrimMomentum \<and>
       call_node g_momentum 8 1 [4] (Some 0) \<and> prim_node g_momentum 1 kPrimZerosLike"
    "call_node g_momentum 10 2 [4, 3] None \<and> prim_node g_momentum 2 kPrimPow \<and>
       matches_const g_momentum P_one_scalar 3"
    by code_simp+
  from detached_guard [OF d(1), where ?f1.0 = 0 and g = 8 and y = 5 and z = 6 and xs = 7
        and ?fg1.0 = None and fz = 1 and ?x1.0 = 4 and fgz = "Some 0" and cm = True
        and fl = fold_none and ft = fill_none]
    detached_guard [OF d(2), where ?f2.0 = 2 and ?x2.0 = 4 and c = 3 and ?fg2.0 = None
        and cm = True and fl = fold_none and ft = fill_none] h
  show ?thesis by simp
qed

text \<open>
  The claim as stated fails on node 26 of \<open>g_arith\<close>, the call 8 * (2 * p) that
  belongs to no sub-graph.  The guard on the candidate's sub-graph (line 57)
  stands after the nested-constant-multiply rule (line 55), so the rule is tried,
  its builder is handed the null sub-graph, and sweep 1 does not return nothing.
\<close>

theorem detached_constant_duplicate_faults:
  "func_graph g_arith 26 = None \<and>
   ArithmeticSimplify True fold_none fill_none g_arith 26 = Inl NullFuncGraph \<and>
   ArithmeticSimplify False fold_none fill_none g_arith 26 = Inl NullFuncGraph"
  by code_simp

text \<open>
  C6, as amended.  For a node c1 * (c2 * x) that belongs to a sub-graph, with c1
  and c2 value nodes: when the literal routine folds the two literals to \<open>v\<close>,
  sweep 1 returns the new call x * v', v' a new value node holding \<open>v\<close>; when the
  routine gives none, it returns the new call x * t, t the new call c1 * c2 over
  the two original constant nodes.  Every new call has the operator node \<open>mul\<close> of
  the original outer multiply as its operator, and is built in the sub-graph of
  the candidate.
\<close>

theorem constant_duplicate_mul_result:
  assumes "call_node s n mul [c1, inner] (Some g)" "prim_node s mul kPrimMul"
    and "node_at s c1 = Some (ValueNode v1)"
    and "call_node s inner mul2 [c2, x] fg2" "prim_node s mul2 kPrimMul"
    and "node_at s c2 = Some (ValueNode v2)"
  shows "ArithmeticSimplify cm fl ft s n =
     (case fl v1 v2 of
        Some v \<Rightarrow>
          Inr (Some (Suc (length (nodes s))),
               s\<lparr>nodes := nodes s @ [ValueNode v, CNode [mul, x, length (nodes s)] (Some g)]\<rparr>)
      | None \<Rightarrow>
          Inr (Some (Suc (length (nodes s))),
               s\<lparr>nodes := nodes s @ [CNode [mul, c1, c2] (Some g),
                                      CNode [mul, x, length (nodes s)] (Some g)]\<rparr>))"
  using assms call_not_value [OF assms(4)] value_IsVNode [OF assms(3)] value_IsVNode [OF assms(6)]
  by (simp add: sweep_simps matches_any const_dup_lambda_def
      MulByPatternConst_def NewCNode_def FuncGraph_NewCNode_def NewValueNode_def call_func_graph
      del: TryCapture.simps(2) split: option.splits)

theorem constant_duplicate_mul_result_witness:
  "ArithmeticSimplify True fold_ints fill_none g_arith 24 =
     Inr (Some 29, g_arith\<lparr>nodes := nodes g_arith @
            [ValueNode (Int32Imm 4), CNode [0, 7, 28] (Some 0)]\<rparr>) \<and>
   ArithmeticSimplify True fold_ints fill_none g_arith 23 =
     Inr (Some 29, g_arith\<lparr>nodes := nodes g_arith @
            [CNode [0, 8, 9] (Some 0), CNode [0, 7, 28] (Some 0)]\<rparr>)"
proof -
  have inner: "call_node g_arith 22 0 [9, 7] (Some 0)" "prim_node g_arith 0 kPrimMul"
    "node_at g_arith 9 = Some (ValueNode (Int32Imm 2))"
    by code_simp+
  have folds: "call_node g_arith 24 0 [9, 22] (Some 0)" "prim_node g_arith 0 kPrimMul"
    "node_at g_arith 9 = Some (ValueNode (Int32Imm 2))"
    by code_simp+
  have fails: "call_node g_arith 23 0 [8, 22] (Some 0)" "prim_node g_arith 0 kPrimMul"
    "node_at g_arith 8 = Some (ValueNode (TensorVal [2] [3, 3]))"
    by code_simp+
  have len: "length (nodes g_arith) = 28" by code_simp
  from constant_duplicate_mul_result [OF folds inner, of True fold_ints fill_none]
    constant_duplicate_mul_result [OF fails inner, of True fold_ints fill_none]
  show ?thesis by (simp add: fold_ints_def len)
qed

text \<open>
  The claim as stated fails on node 27 of \<open>g_arith\<close>, the call 2 * (2 * p) that
  belongs to no sub-graph: the literals fold, and sweep 1 returns no node.
\<close>

theorem constant_duplicate_mul_detached:
  "func_graph g_arith 27 = None \<and>
   cnode_inputs g_arith 27 = Some [0, 9, 25] \<and> cnode_inputs g_arith 25 = Some [0, 9, 7] \<and>
   fold_ints (Int32Imm 2) (Int32Imm 2) = Some (Int32Imm 4) \<and>
   ArithmeticSimplify True fold_ints fill_none g_arith 27 = Inl NullFuncGraph"
  by code_simp

text \<open>
  C7, as amended.  Sweep 1 returns the node x itself, and leaves the graph as it
  is, for x + 0 with the zero (scalar-typed or not) on the right and for
  scalar_add(0, x).  With the zero on the other side, scalar_add(x, 0) and, where
  the \<open>+\<close> combinator also tries its operands swapped, 0 + x, it returns x unless x
  is itself a zero literal of the rule; then the rule written for the other order
  has fired first and the node returned is the other operand.
\<close>

theorem add_by_zero_rules:
  "(call_node s n1 f1 [x1, z1] fg1 \<and> prim_node s f1 kPrimTensorAdd \<and>
      (matches_const s P_zero z1 \<or> matches_const s P_zero_scalar z1)
      \<longrightarrow> ArithmeticSimplify cm fl ft s n1 = Inr (Some x1, s)) \<and>
   (call_node s n2 f2 [z2, x2] fg2 \<and> prim_node s f2 kPrimScalarAdd \<and>
      matches_const s P_zero_scalar z2
      \<longrightarrow> ArithmeticSimplify cm fl ft s n2 = Inr (Some x2, s)) \<and>
   (call_node s n3 f3 [x3, z3] fg3 \<and> prim_node s f3 kPrimScalarAdd \<and>
      matches_const s P_zero_scalar z3
      \<longrightarrow> ArithmeticSimplify cm fl ft s n3 =
            Inr (Some (if matches_const s P_zero_scalar x3 then z3 else x3), s)) \<and>
   (call_node s n4 f4 [z4, x4] fg4 \<and> prim_node s f4 kPrimTensorAdd \<and>
      (matches_const s P_zero z4 \<or> matches_const s P_zero_scalar z4)
      \<longrightarrow> ArithmeticSimplify True fl ft s n4 =
            Inr (Some (if matches_const s P_zero x4 then z4 else x4), s))"
  apply (intro conjI impI; (elim conjE)?)
  subgoal
    using zero_scalar_is_zero [of s z1]
    by (auto simp add: sweep_simps simp del: TryCapture.simps(2))
  subgoal by (simp add: sweep_simps del: TryCapture.simps(2))
  subgoal by (simp add: sweep_simps del: TryCapture.simps(2))
  subgoal
    using zero_scalar_is_zero [of s z4]
    by (auto simp add: sweep_simps simp del: TryCapture.simps(2))
  done

theorem add_by_zero_rules_witness:
  "ArithmeticSimplify False fold_none fill_none g_arith 14 = Inr (Some 7, g_arith) \<and>
   ArithmeticSimplify False fold_none fill_none g_arith 15 = Inr (Some 7, g_arith) \<and>
   ArithmeticSimplify False fold_none fill_none g_arith 16 = Inr (Some 7, g_arith) \<and>
   ArithmeticSimplify True fold_none fill_none g_arith 17 = Inr (Some 7, g_arith)"
proof -
  have h: "call_node g_arith 14 2 [7, 4] (Some 0) \<and> prim_node g_arith 2 kPrimTensorAdd \<and>
      (matches_const g_arith P_zero 4 \<or> matches_const g_arith P_zero_scalar 4)"
    "call_node g_arith 15 3 [4, 7] (Some 0) \<and> prim_node g_arith 3 kPrimScalarAdd \<and>
      matches_const g_arith P_zero_scalar 4"
    "call_node g_arith 16 3 [7, 4] (Some 0) \<and> prim_node g_arith 3 kPrimScalarAdd \<and>
      matches_const g_arith P_zero_scalar 4"
    "call_node g_arith 17 2 [4, 7] (Some 0) \<and> prim_node g_arith 2 kPrimTensorAdd \<and>
      (matches_const g_arith P_zero 4 \<or> matches_const g_arith P_zero_scalar 4)"
    "\<not> matches_const g_arith P_zero_scalar 7" "\<not> matches_const g_arith P_zero 7"
    by code_simp+
  from add_by_zero_rules
    [of g_arith 14 2 7 4 "Some 0" False fold_none fill_none 15 3 4 7 "Some 0" 16 3 7 4 "Some 0"
        17 2 4 7 "Some 0"] h
  show ?thesis by simp
qed

text \<open>
  The claim as stated fails on node 18 of \<open>g_arith\<close>, scalar_add(x, 0) with x the
  zero literal node 4 and the zero the node 5: the node returned is node 5.
\<close>

theorem scalar_add_two_zeros:
  "cnode_inputs g_arith 18 = Some [3, 4, 5] \<and>
   ArithmeticSimplify True fold_none fill_none g_arith 18 = Inr (Some 5, g_arith) \<and>
   ArithmeticSimplify False fold_none fill_none g_arith 18 = Inr (Some 5, g_arith)"
  by code_simp

text \<open>
  C8, as amended.  For every node x that is not the scalar literal one, sweep 1
  rewrites scalar_mul(0, x) and scalar_mul(x, 0) to a new value node holding the
  literal zero: the node returned did not exist before, so it is not the matched
  zero operand.  When x is the scalar literal one, the scalar multiply-by-one rule
  has fired first: the node returned is the matched zero operand and no node is
  built.
\<close>

theorem scalar_mul_by_zero_rules:
  "(call_node s n1 f1 [z1, x1] fg1 \<and> prim_node s f1 kPrimScalarMul \<and>
      matches_const s P_zero_scalar z1
      \<longrightarrow> ArithmeticSimplify cm fl ft s n1 =
            (if matches_const s P_one_scalar x1 then Inr (Some z1, s)
             else Inr (Some (length (nodes s)),
                       s\<lparr>nodes := nodes s @ [ValueNode (Int32Imm 0)]\<rparr>))) \<and>
   (call_node s n2 f2 [x2, z2] fg2 \<and> prim_node s f2 kPrimScalarMul \<and>
      matches_const s P_zero_scalar z2
      \<longrightarrow> ArithmeticSimplify cm fl ft s n2 =
            (if matches_const s P_one_scalar x2 then Inr (Some z2, s)
             else Inr (Some (length (nodes s)),
                       s\<lparr>nodes := nodes s @ [ValueNode (Int32Imm 0)]\<rparr>)))"
  apply (intro conjI impI; (elim conjE)?)
  subgoal
    using zero_scalar_not_one [of s z1]
    by (simp add: sweep_simps NewValue_def NewValueNode_def del: TryCapture.simps(2))
  subgoal
    using zero_scalar_not_one [of s z2]
    by (simp add: sweep_simps NewValue_def NewValueNode_def del: TryCapture.simps(2))
  done

theorem scalar_mul_by_zero_rules_witness:
  "ArithmeticSimplify True fold_none fill_none g_arith 19 =
     Inr (Some 28, g_arith\<lparr>nodes := nodes g_arith @ [ValueNode (Int32Imm 0)]\<rparr>) \<and>
   ArithmeticSimplify True fold_none fill_none g_arith 20 =
     Inr (Some 28, g_arith\<lparr>nodes := nodes g_arith @ [ValueNode (Int32Imm 0)]\<rparr>)"
proof -
  have h: "call_node g_arith 19 1 [4, 7] (Some 0) \<and> prim_node g_arith 1 kPrimScalarMul \<and>
      matches_const g_arith P_zero_scalar 4"
    "call_node g_arith 20 1 [7, 4] (Some 0) \<and> prim_node g_arith 1 kPrimScalarMul \<and>
      matches_const g_arith P_zero_scalar 4"
    "\<not> matches_const g_arith P_one_scalar 7"
    by code_simp+
  have len: "length (nodes g_arith) = 28" by code_simp
  from scalar_mul_by_zero_rules
    [of g_arith 19 1 4 7 "Some 0" True fold_none fill_none 20 1 7 4 "Some 0"] h
  show ?thesis by (simp add: len)
qed

text \<open>
  The claim as stated fails on node 21 of \<open>g_arith\<close>, scalar_mul(0, x) with x the
  literal one: the multiply-by-one rule fires first and the node returned is the
  matched zero operand, node 4; no node is built.
\<close>

theorem scalar_mul_zero_one:
  "cnode_inputs g_arith 21 = Some [1, 4, 6] \<and>
   ArithmeticSimplify True fold_none fill_none g_arith 21 = Inr (Some 4, g_arith) \<and>
   ArithmeticSimplify False fold_none fill_none g_arith 21 = Inr (Some 4, g_arith)"
  by code_simp




end
